theory Spec2Isabelle
  imports Main "HOL-Library.Word"
begin

unbundle bit_operations_syntax

section \<open>Values, errors and loops of the source\<close>

text \<open>
  The social sign-in module (\<^verbatim>\<open>social-auth.ts\<close>, in the variant that carries its own
  SHA-256) is embedded function by function. A \<^verbatim>\<open>Uint8Array\<close> is a list of bytes, a
  string whose characters are all below 256 is a \<^typ>\<open>string\<close>, and a value of type
  \<^verbatim>\<open>unknown\<close> is a \<open>jsval\<close>. A \<^verbatim>\<open>throw new Error(...)\<close> is the left summand of a
  result: one constructor of \<open>error\<close> per throw site, and \<open>error_message\<close> gives the text
  the source puts into the \<^verbatim>\<open>Error\<close>. \<open>SyntaxError\<close> and \<open>FetchFailed\<close> are the platform's:
  what \<^verbatim>\<open>JSON.parse\<close> or \<^verbatim>\<open>json()\<close> throws on a text that is no JSON, and what \<^verbatim>\<open>fetch\<close>
  rejects with when the request cannot be made. \<open>RangeError\<close> is what a \<^verbatim>\<open>DataView\<close> throws
  for an offset outside its buffer.
\<close>

type_synonym byte = "8 word"

datatype jsval =
    JUndefined
  | JNull
  | JBool bool
  | JNum int
  | JStr string
  | JArr "jsval list"

datatype error =
    ProviderError string string
  | StateMismatch
  | MissingCode
  | SyntaxError
  | FetchFailed
  | RangeError
  | LineTokenExchangeFailed nat string
  | LineProfileFetchFailed nat string
  | LineMissingUserId
  | XTokenExchangeFailed nat string
  | XProfileFetchFailed nat string
  | XMissingUserId

text \<open>\<^verbatim>\<open>`${status}`\<close>: the decimal digits of a status code.\<close>

function show_nat :: "nat \<Rightarrow> string" where
  "show_nat n =
     (if n < 10 then [char_of (48 + n)] else show_nat (n div 10) @ [char_of (48 + n mod 10)])"
  by pat_completeness auto
termination
  by (relation "measure (\<lambda>n. n)") auto

declare show_nat.simps [simp del]

text \<open>
  The message of each \<^verbatim>\<open>Error\<close>. \<open>ProviderError e d\<close> carries the \<^verbatim>\<open>error\<close> and the
  \<^verbatim>\<open>error_description\<close> parameters, and its message is the source's
  \<^verbatim>\<open>errorDescription ? `${error}: ${errorDescription}` : error\<close>. The HTTP failures
  carry the status and the body, and their message is the source's
  \<^verbatim>\<open>`LINE token exchange failed (${tokenResponse.status}): ${text}`\<close> and its three siblings.
\<close>

fun error_message :: "error \<Rightarrow> string" where
  "error_message (ProviderError e d) = (if d \<noteq> [] then e @ '': '' @ d else e)"
| "error_message StateMismatch = ''Invalid OAuth state.''"
| "error_message MissingCode = ''Authorization code was not returned by provider.''"
| "error_message SyntaxError = ''SyntaxError''"
| "error_message FetchFailed = ''TypeError''"
| "error_message RangeError = ''RangeError''"
| "error_message (LineTokenExchangeFailed s b) =
     ''LINE token exchange failed ('' @ show_nat s @ ''): '' @ b"
| "error_message (LineProfileFetchFailed s b) =
     ''LINE profile fetch failed ('' @ show_nat s @ ''): '' @ b"
| "error_message LineMissingUserId = ''LINE profile did not include user id.''"
| "error_message (XTokenExchangeFailed s b) =
     ''X token exchange failed ('' @ show_nat s @ ''): '' @ b"
| "error_message (XProfileFetchFailed s b) =
     ''X profile fetch failed ('' @ show_nat s @ ''): '' @ b"
| "error_message XMissingUserId = ''X profile did not include user id.''"

lemma error_message_status:
  "error_message (LineTokenExchangeFailed 400 ''bad'') = ''LINE token exchange failed (400): bad''"
  by code_simp

text \<open>
  \<^verbatim>\<open>for (let i = a; i < n; i += step) body\<close>, with the variables the body assigns as the
  state \<open>s\<close>. Every loop of the source steps by a positive constant.
\<close>

function for_loop :: "nat \<Rightarrow> nat \<Rightarrow> nat \<Rightarrow> (nat \<Rightarrow> 's \<Rightarrow> 's) \<Rightarrow> 's \<Rightarrow> 's" where
  "for_loop i n step body s =
     (if i < n \<and> 0 < step then for_loop (i + step) n step body (body i s) else s)"
  by pat_completeness auto
termination
  by (relation "measure (\<lambda>(i, n, step, body, s). n - i)") auto

declare for_loop.simps [simp del]

lemma for_loop_done: "n \<le> i \<Longrightarrow> for_loop i n step body s = s"
  by (simp add: for_loop.simps)

lemma for_loop_step:
  "i < n \<Longrightarrow> 0 < step \<Longrightarrow> for_loop i n step body s = for_loop (i + step) n step body (body i s)"
  by (subst for_loop.simps) simp

lemma for_loop_fold: "for_loop i n 1 body s = fold body [i..<n] s"
proof (induction "n - i" arbitrary: i s)
  case 0
  then show ?case by (simp add: for_loop_done)
next
  case (Suc k)
  then have lt: "i < n" and k: "k = n - Suc i" by auto
  have "for_loop i n 1 body s = for_loop (Suc i) n 1 body (body i s)"
    using lt by (simp add: for_loop_step)
  also have "\<dots> = fold body [Suc i..<n] (body i s)"
    using Suc.hyps(1) [OF k] .
  finally show ?case using lt by (simp add: upt_conv_Cons)
qed

section \<open>Callback parsing: \<^verbatim>\<open>normalizeString\<close> and \<^verbatim>\<open>parseOAuthUrl\<close>\<close>

text \<open>\<^verbatim>\<open>typeof value === 'string' ? value : ''\<close>\<close>

fun normalizeString :: "jsval \<Rightarrow> string" where
  "normalizeString (JStr s) = s"
| "normalizeString _ = []"

record OAuthSessionResult =
  code :: string

text \<open>
  \<^verbatim>\<open>Linking.parse\<close> belongs to the platform (expo-linking) and is a parameter: it gives the
  \<^verbatim>\<open>queryParams\<close> of the URL, \<open>None\<close> for \<^verbatim>\<open>null\<close>, as a function from the parameter's name
  to its value (\<open>JUndefined\<close> for a name the object does not have). The conditions
  \<^verbatim>\<open>if (error)\<close>, \<^verbatim>\<open>!state\<close> and \<^verbatim>\<open>!code\<close> test strings, and a string is falsy exactly
  when it is empty.
\<close>

definition parseOAuthUrl ::
  "(string \<Rightarrow> (string \<Rightarrow> jsval) option) \<Rightarrow> string \<Rightarrow> string \<Rightarrow> error + OAuthSessionResult" where
  "parseOAuthUrl Linking_parse url expectedState =
     (let queryParams = (case Linking_parse url of None \<Rightarrow> (\<lambda>k. JUndefined) | Some q \<Rightarrow> q);
          error = normalizeString (queryParams ''error'');
          errorDescription = normalizeString (queryParams ''error_description'')
      in if error \<noteq> [] then Inl (ProviderError error errorDescription)
         else
           let state = normalizeString (queryParams ''state'')
           in if state = [] \<or> state \<noteq> expectedState then Inl StateMismatch
              else
                let code = normalizeString (queryParams ''code'')
                in if code = [] then Inl MissingCode
                   else Inr \<lparr>code = code\<rparr>)"

definition is_string :: "jsval \<Rightarrow> bool" where
  "is_string v = (case v of JStr s \<Rightarrow> True | _ \<Rightarrow> False)"

lemma normalizeString_not_string: "\<not> is_string v \<Longrightarrow> normalizeString v = []"
  by (cases v) (simp_all add: is_string_def)

text \<open>An object literal, read by property name; and a \<^verbatim>\<open>Linking.parse\<close> that gives it.\<close>

definition obj :: "(string \<times> jsval) list \<Rightarrow> string \<Rightarrow> jsval" where
  "obj kvs k = (case map_of kvs k of None \<Rightarrow> JUndefined | Some v \<Rightarrow> v)"

definition parsed_as :: "(string \<Rightarrow> jsval) \<Rightarrow> string \<Rightarrow> (string \<Rightarrow> jsval) option" where
  "parsed_as q url = Some q"

text \<open>
  C3, as stated, at \<^verbatim>\<open>?error=&state=s&code=c\<close> with the expected state \<^verbatim>\<open>s\<close>: the \<^verbatim>\<open>error\<close>
  parameter is present (it is the empty string), and the call does not fail with a provider
  error: \<^verbatim>\<open>if (error)\<close> is false for the empty string, and the code is returned.
\<close>

theorem parseOAuthUrl_empty_error_counterexample:
  "obj [(''error'', JStr []), (''state'', JStr ''s''), (''code'', JStr ''c'')] ''error'' \<noteq> JUndefined
   \<and> parseOAuthUrl
        (parsed_as (obj [(''error'', JStr []), (''state'', JStr ''s''), (''code'', JStr ''c'')]))
        ''mugimaru://auth/callback?error=&state=s&code=c'' ''s''
       = Inr \<lparr>code = ''c''\<rparr>"
  by (simp add: parseOAuthUrl_def parsed_as_def obj_def)

text \<open>
  The \<^verbatim>\<open>queryParams\<close> that \<^verbatim>\<open>parseOAuthUrl\<close> reads: those of \<^verbatim>\<open>Linking.parse\<close>, or the
  empty object when it gives \<^verbatim>\<open>null\<close>.
\<close>

definition queryParams_of ::
  "(string \<Rightarrow> (string \<Rightarrow> jsval) option) \<Rightarrow> string \<Rightarrow> string \<Rightarrow> jsval" where
  "queryParams_of Linking_parse url =
     (case Linking_parse url of None \<Rightarrow> (\<lambda>k. JUndefined) | Some q \<Rightarrow> q)"

definition parsed_null :: "string \<Rightarrow> (string \<Rightarrow> jsval) option" where
  "parsed_null url = None"

text \<open>
  C3, amended: for every redirect URL, every \<^verbatim>\<open>Linking.parse\<close> and every expected state,
  with \<open>q\<close> the query parameters of the URL (the empty object when \<^verbatim>\<open>Linking.parse\<close> gives
  none, in which case the call fails with the state mismatch),
  (1) if \<^verbatim>\<open>error\<close> is a non-empty string the call fails with the provider error that carries
  it and the \<^verbatim>\<open>error_description\<close> (the empty string when that is no string), whatever the
  state and the code are; (2) otherwise, if \<^verbatim>\<open>state\<close> is not a string, is empty or differs
  from the expected value, it fails with the state mismatch, whatever the code is;
  (3) otherwise, if \<^verbatim>\<open>code\<close> is no string or is empty, it fails with the missing code;
  (4) otherwise it returns exactly that code.
\<close>

theorem parseOAuthUrl_policy:
  "(let q = queryParams_of Linking_parse url;
        r = parseOAuthUrl Linking_parse url expectedState
    in (\<forall>e. q ''error'' = JStr e \<and> e \<noteq> [] \<longrightarrow>
          r = Inl (ProviderError e (normalizeString (q ''error_description''))))
     \<and> (normalizeString (q ''error'') = []
          \<and> (\<forall>s. q ''state'' = JStr s \<longrightarrow> s = [] \<or> s \<noteq> expectedState) \<longrightarrow>
          r = Inl StateMismatch)
     \<and> (normalizeString (q ''error'') = [] \<and> q ''state'' = JStr expectedState
          \<and> expectedState \<noteq> [] \<and> normalizeString (q ''code'') = [] \<longrightarrow>
          r = Inl MissingCode)
     \<and> (\<forall>c. normalizeString (q ''error'') = [] \<and> q ''state'' = JStr expectedState
          \<and> expectedState \<noteq> [] \<and> q ''code'' = JStr c \<and> c \<noteq> [] \<longrightarrow>
          r = Inr \<lparr>code = c\<rparr>)
     \<and> (Linking_parse url = None \<longrightarrow> r = Inl StateMismatch))"
proof -
  define q where "q = queryParams_of Linking_parse url"
  have r: "parseOAuthUrl Linking_parse url expectedState =
     (if normalizeString (q ''error'') \<noteq> []
      then Inl (ProviderError (normalizeString (q ''error''))
                  (normalizeString (q ''error_description'')))
      else if normalizeString (q ''state'') = [] \<or> normalizeString (q ''state'') \<noteq> expectedState
      then Inl StateMismatch
      else if normalizeString (q ''code'') = [] then Inl MissingCode
      else Inr \<lparr>code = normalizeString (q ''code'')\<rparr>)"
    by (simp add: parseOAuthUrl_def queryParams_of_def q_def Let_def)
  have state_cases: "normalizeString (q ''state'') = [] \<or> normalizeString (q ''state'') \<noteq> expectedState"
    if "\<forall>s. q ''state'' = JStr s \<longrightarrow> s = [] \<or> s \<noteq> expectedState"
    using that by (cases "q ''state''") auto
  have none: "Linking_parse url = None \<Longrightarrow> normalizeString (q k) = []" for k
    by (simp add: q_def queryParams_of_def)
  show ?thesis
    unfolding Let_def q_def [symmetric] r
    using state_cases none by auto
qed

theorem parseOAuthUrl_policy_witness:
  "parseOAuthUrl
     (parsed_as (obj [(''error'', JStr ''access_denied''), (''error_description'', JStr ''denied''),
                      (''state'', JStr ''other''), (''code'', JStr ''c'')]))
     ''mugimaru://auth/callback'' ''s'' = Inl (ProviderError ''access_denied'' ''denied'')
   \<and> parseOAuthUrl (parsed_as (obj [(''state'', JStr ''other''), (''code'', JStr ''c'')]))
     ''mugimaru://auth/callback'' ''s'' = Inl StateMismatch
   \<and> parseOAuthUrl (parsed_as (obj [(''state'', JStr ''s'')]))
     ''mugimaru://auth/callback'' ''s'' = Inl MissingCode
   \<and> parseOAuthUrl (parsed_as (obj [(''state'', JStr ''s''), (''code'', JStr ''c'')]))
     ''mugimaru://auth/callback'' ''s'' = Inr \<lparr>code = ''c''\<rparr>
   \<and> parseOAuthUrl parsed_null ''mugimaru://auth/callback'' ''s'' = Inl StateMismatch"
proof -
  let ?q1 = "obj [(''error'', JStr ''access_denied''), (''error_description'', JStr ''denied''),
                  (''state'', JStr ''other''), (''code'', JStr ''c'')]"
  let ?q2 = "obj [(''state'', JStr ''other''), (''code'', JStr ''c'')]"
  let ?q3 = "obj [(''state'', JStr ''s'')]"
  let ?q4 = "obj [(''state'', JStr ''s''), (''code'', JStr ''c'')]"
  let ?u = "''mugimaru://auth/callback''"
  have q: "queryParams_of (parsed_as q) u = q" for q u
    by (simp add: queryParams_of_def parsed_as_def)
  show ?thesis
    using parseOAuthUrl_policy [of "parsed_as ?q1" ?u "''s''"]
      parseOAuthUrl_policy [of "parsed_as ?q2" ?u "''s''"]
      parseOAuthUrl_policy [of "parsed_as ?q3" ?u "''s''"]
      parseOAuthUrl_policy [of "parsed_as ?q4" ?u "''s''"]
      parseOAuthUrl_policy [of parsed_null ?u "''s''"]
    by (simp add: q Let_def obj_def parsed_null_def)
qed

text \<open>
  C10, as stated, at two sets of query parameters with the expected state \<^verbatim>\<open>s\<close>. With
  \<^verbatim>\<open>error\<close> the string \<^verbatim>\<open>access_denied\<close> and \<^verbatim>\<open>state\<close> an array, the non-string state does
  not fail as a state mismatch: the provider error, checked first, is reported. With
  \<^verbatim>\<open>state\<close> the string \<^verbatim>\<open>other\<close> and \<^verbatim>\<open>code\<close> an array, the non-string code does not fail
  as missing code: the state mismatch, checked before the code, is reported.
\<close>

theorem parseOAuthUrl_non_string_counterexample:
  "\<not> is_string (obj [(''error'', JStr ''access_denied''), (''state'', JArr [JStr ''s''])] ''state'')
   \<and> parseOAuthUrl
        (parsed_as (obj [(''error'', JStr ''access_denied''), (''state'', JArr [JStr ''s''])]))
        ''mugimaru://auth/callback'' ''s''
       = Inl (ProviderError ''access_denied'' [])
   \<and> \<not> is_string (obj [(''state'', JStr ''other''), (''code'', JArr [JStr ''c''])] ''code'')
   \<and> parseOAuthUrl
        (parsed_as (obj [(''state'', JStr ''other''), (''code'', JArr [JStr ''c''])]))
        ''mugimaru://auth/callback'' ''s''
       = Inl StateMismatch"
  by (simp add: parseOAuthUrl_def parsed_as_def obj_def is_string_def)

text \<open>
  C10, amended: for every redirect URL, every \<^verbatim>\<open>Linking.parse\<close> and every expected state,
  the result is the one the policy gives when every query parameter is replaced by its
  \<^verbatim>\<open>normalizeString\<close>, so a value that is no string (absent, an array, anything else)
  counts as the empty string. A non-string \<^verbatim>\<open>error\<close> never gives the provider error. With
  a non-string \<^verbatim>\<open>state\<close> the call never succeeds, whatever the expected state is and
  whatever strings the value holds: it fails with the provider error when \<^verbatim>\<open>error\<close> is a
  non-empty string, and with the state mismatch otherwise. With a non-string \<^verbatim>\<open>code\<close> the
  call never succeeds: it fails with the provider error when \<^verbatim>\<open>error\<close> is a non-empty
  string, otherwise with the state mismatch when \<^verbatim>\<open>state\<close> is no string, is empty or
  differs from the expected value, and otherwise with the missing code.
\<close>

theorem parseOAuthUrl_coerces_non_strings:
  "(let q = queryParams_of Linking_parse url;
        r = parseOAuthUrl Linking_parse url expectedState;
        provider = Inl (ProviderError (normalizeString (q ''error''))
                          (normalizeString (q ''error_description'')))
    in r = parseOAuthUrl (parsed_as (\<lambda>k. JStr (normalizeString (q k)))) url expectedState
     \<and> (\<not> is_string (q ''error'') \<longrightarrow> (\<forall>e d. r \<noteq> Inl (ProviderError e d)))
     \<and> (\<not> is_string (q ''state'') \<longrightarrow>
          r = (if normalizeString (q ''error'') \<noteq> [] then provider else Inl StateMismatch))
     \<and> (\<not> is_string (q ''code'') \<longrightarrow>
          r = (if normalizeString (q ''error'') \<noteq> [] then provider
               else if normalizeString (q ''state'') = []
                       \<or> normalizeString (q ''state'') \<noteq> expectedState
               then Inl StateMismatch
               else Inl MissingCode)))"
proof -
  define q where "q = queryParams_of Linking_parse url"
  have r: "parseOAuthUrl Linking_parse url expectedState =
     (if normalizeString (q ''error'') \<noteq> []
      then Inl (ProviderError (normalizeString (q ''error''))
                  (normalizeString (q ''error_description'')))
      else if normalizeString (q ''state'') = [] \<or> normalizeString (q ''state'') \<noteq> expectedState
      then Inl StateMismatch
      else if normalizeString (q ''code'') = [] then Inl MissingCode
      else Inr \<lparr>code = normalizeString (q ''code'')\<rparr>)"
    by (simp add: parseOAuthUrl_def queryParams_of_def q_def Let_def)
  have c: "parseOAuthUrl (parsed_as (\<lambda>k. JStr (normalizeString (q k)))) url expectedState
      = parseOAuthUrl Linking_parse url expectedState"
    unfolding r by (simp add: parseOAuthUrl_def parsed_as_def Let_def)
  have n: "\<not> is_string (q k) \<Longrightarrow> normalizeString (q k) = []" for k
    by (rule normalizeString_not_string)
  show ?thesis
    unfolding Let_def q_def [symmetric] c
    unfolding r
    using n by auto
qed

theorem parseOAuthUrl_coerces_non_strings_witness:
  "\<not> is_string (obj [(''state'', JArr [JStr ''s'', JStr ''s'']), (''code'', JArr [JStr ''c''])] ''error'')
   \<and> \<not> is_string (obj [(''state'', JArr [JStr ''s'', JStr ''s'']), (''code'', JArr [JStr ''c''])] ''state'')
   \<and> parseOAuthUrl
        (parsed_as (obj [(''state'', JArr [JStr ''s'', JStr ''s'']), (''code'', JArr [JStr ''c''])]))
        ''mugimaru://auth/callback'' ''s'' = Inl StateMismatch
   \<and> \<not> is_string (obj [(''state'', JStr ''s''), (''code'', JArr [JStr ''c''])] ''code'')
   \<and> parseOAuthUrl (parsed_as (obj [(''state'', JStr ''s''), (''code'', JArr [JStr ''c''])]))
        ''mugimaru://auth/callback'' ''s'' = Inl MissingCode"
proof -
  let ?q1 = "obj [(''state'', JArr [JStr ''s'', JStr ''s'']), (''code'', JArr [JStr ''c''])]"
  let ?q2 = "obj [(''state'', JStr ''s''), (''code'', JArr [JStr ''c''])]"
  let ?u = "''mugimaru://auth/callback''"
  have q: "queryParams_of (parsed_as q) u = q" for q u
    by (simp add: queryParams_of_def parsed_as_def)
  have e1: "\<not> is_string (?q1 ''error'')" and s1: "\<not> is_string (?q1 ''state'')"
    and n1: "normalizeString (?q1 ''error'') = []"
    by (simp_all add: obj_def is_string_def)
  have c2: "\<not> is_string (?q2 ''code'')" and n2: "normalizeString (?q2 ''error'') = []"
    and s2: "normalizeString (?q2 ''state'') = ''s''"
    by (simp_all add: obj_def is_string_def)
  note t1 = parseOAuthUrl_coerces_non_strings [of "parsed_as ?q1" ?u "''s''", unfolded Let_def q]
  note t2 = parseOAuthUrl_coerces_non_strings [of "parsed_as ?q2" ?u "''s''", unfolded Let_def q]
  have "parseOAuthUrl (parsed_as ?q1) ?u ''s'' = Inl StateMismatch"
    using t1 [THEN conjunct2, THEN conjunct2, THEN conjunct1] s1 n1 by simp
  moreover have "parseOAuthUrl (parsed_as ?q2) ?u ''s'' = Inl MissingCode"
    using t2 [THEN conjunct2, THEN conjunct2, THEN conjunct2] c2 n2 s2 by simp
  ultimately show ?thesis
    using e1 s1 c2 by simp
qed

section \<open>Numbers and strings of the platform\<close>

text \<open>
  A JavaScript number that holds an integer below \<open>2 ^ 53\<close> in size is an \<^typ>\<open>int\<close>: on
  such numbers \<^verbatim>\<open>+\<close> is exact. The bitwise operators first convert their operands with
  \<^verbatim>\<open>ToInt32\<close> (\<^verbatim>\<open>ToUint32\<close> for the left operand of \<^verbatim>\<open>>>>\<close>), which reduce modulo
  \<open>2 ^ 32\<close>, and take the shift count modulo 32. \<^verbatim>\<open>x | 0\<close> is \<open>ToInt32 x\<close> and
  \<^verbatim>\<open>x >>> 0\<close> is \<open>ToUint32 x\<close>.
\<close>

definition ToUint32 :: "int \<Rightarrow> int" where
  "ToUint32 x = x mod 2 ^ 32"

definition ToInt32 :: "int \<Rightarrow> int" where
  "ToInt32 x = (let r = x mod 2 ^ 32 in if 2 ^ 31 \<le> r then r - 2 ^ 32 else r)"

definition js_or :: "int \<Rightarrow> int \<Rightarrow> int" where
  "js_or x y = ToInt32 x OR ToInt32 y"

definition js_and :: "int \<Rightarrow> int \<Rightarrow> int" where
  "js_and x y = ToInt32 x AND ToInt32 y"

definition js_xor :: "int \<Rightarrow> int \<Rightarrow> int" where
  "js_xor x y = ToInt32 x XOR ToInt32 y"

definition js_not :: "int \<Rightarrow> int" where
  "js_not x = NOT (ToInt32 x)"

definition js_shl :: "int \<Rightarrow> nat \<Rightarrow> int" where
  "js_shl x n = ToInt32 (ToInt32 x * 2 ^ (n mod 32))"

definition js_sar :: "int \<Rightarrow> nat \<Rightarrow> int" where
  "js_sar x n = ToInt32 x div 2 ^ (n mod 32)"

definition js_shr :: "int \<Rightarrow> nat \<Rightarrow> int" where
  "js_shr x n = ToUint32 x div 2 ^ (n mod 32)"

text \<open>
  \<^verbatim>\<open>s[i]\<close> on a string is the one-character string at \<open>i\<close>, or \<^verbatim>\<open>undefined\<close> out of
  range; \<^verbatim>\<open>result += s[i]\<close> then appends the text \<^verbatim>\<open>undefined\<close>. \<^verbatim>\<open>s.indexOf(c)\<close>
  is the first position of \<open>c\<close> or \<open>-1\<close>; for \<^verbatim>\<open>undefined\<close> it looks for the text
  \<^verbatim>\<open>undefined\<close>, which neither alphabet of this module contains.
\<close>

definition char_at :: "string \<Rightarrow> int \<Rightarrow> char option" where
  "char_at s i = (if 0 \<le> i \<and> i < int (length s) then Some (s ! nat i) else None)"

definition append_char :: "string \<Rightarrow> char option \<Rightarrow> string" where
  "append_char result c = (case c of Some x \<Rightarrow> result @ [x] | None \<Rightarrow> result @ ''undefined'')"

fun index_from :: "string \<Rightarrow> char \<Rightarrow> int \<Rightarrow> int" where
  "index_from [] c k = - 1"
| "index_from (x # xs) c k = (if x = c then k else index_from xs c (k + 1))"

definition indexOf :: "string \<Rightarrow> char option \<Rightarrow> int" where
  "indexOf s c = (case c of Some x \<Rightarrow> index_from s x 0 | None \<Rightarrow> - 1)"

section \<open>\<^verbatim>\<open>randomString\<close>\<close>

definition PKCE_CHARSET :: string where
  "PKCE_CHARSET = ''ABCDEFGHIJKLMNOPQRSTUVWXYZabcdefghijklmnopqrstuvwxyz0123456789-._~''"

text \<open>
  The random source is the platform's. With \<^verbatim>\<open>crypto.getRandomValues\<close> the array is
  filled by the platform: \<open>SecureRandom g\<close> puts \<open>g i\<close> at index \<open>i\<close>. Without it the
  source's own loop stores \<^verbatim>\<open>Math.floor(Math.random() * 256)\<close>: \<open>MathRandom r\<close> gives that
  number for the \<open>i\<close>-th iteration, and the \<^verbatim>\<open>Uint8Array\<close> keeps it modulo 256.
\<close>

datatype random_source = SecureRandom "nat \<Rightarrow> byte" | MathRandom "nat \<Rightarrow> nat"

definition randomString :: "random_source \<Rightarrow> nat \<Rightarrow> string" where
  "randomString source len =
     (let array0 = replicate len (0 :: byte);
          array = (case source of
                     SecureRandom g \<Rightarrow> map g [0..<length array0]
                   | MathRandom r \<Rightarrow> for_loop 0 len 1 (\<lambda>i a. a[i := of_nat (r i)]) array0)
      in for_loop 0 (length array) 1
           (\<lambda>i output.
              append_char output
                (char_at PKCE_CHARSET (uint (array ! i) mod int (length PKCE_CHARSET))))
           [])"

text \<open>The unreserved characters of RFC 7636: letters, digits, \<^verbatim>\<open>-\<close>, \<^verbatim>\<open>.\<close>, \<^verbatim>\<open>_\<close>, \<^verbatim>\<open>~\<close>.\<close>

definition unreserved :: "char \<Rightarrow> bool" where
  "unreserved c =
     (let n = (of_char c :: nat)
      in (65 \<le> n \<and> n \<le> 90) \<or> (97 \<le> n \<and> n \<le> 122) \<or> (48 \<le> n \<and> n \<le> 57)
         \<or> c = CHR ''-'' \<or> c = CHR ''.'' \<or> c = CHR ''_'' \<or> c = CHR ''~'')"

section \<open>Base64 and Base64URL\<close>

definition BASE64_CHARS :: string where
  "BASE64_CHARS = ''ABCDEFGHIJKLMNOPQRSTUVWXYZabcdefghijklmnopqrstuvwxyz0123456789+/''"

text \<open>The body of the loop of \<^verbatim>\<open>bytesToBase64\<close>, at index \<open>i\<close>, and the loop.\<close>

definition bytesToBase64_step :: "byte list \<Rightarrow> nat \<Rightarrow> string \<Rightarrow> string" where
  "bytesToBase64_step bytes i result =
     (let a = uint (bytes ! i);
          b = (if i + 1 < length bytes then uint (bytes ! (i + 1)) else 0);
          c = (if i + 2 < length bytes then uint (bytes ! (i + 2)) else 0);
          triple = js_or (js_or (js_shl a 16) (js_shl b 8)) c;
          result = append_char result (char_at BASE64_CHARS (js_and (js_sar triple 18) 63));
          result = append_char result (char_at BASE64_CHARS (js_and (js_sar triple 12) 63));
          result = (if i + 1 < length bytes
                    then append_char result (char_at BASE64_CHARS (js_and (js_sar triple 6) 63))
                    else result @ ''='');
          result = (if i + 2 < length bytes
                    then append_char result (char_at BASE64_CHARS (js_and triple 63))
                    else result @ ''='')
      in result)"

definition bytesToBase64 :: "byte list \<Rightarrow> string" where
  "bytesToBase64 bytes = for_loop 0 (length bytes) 3 (bytesToBase64_step bytes) []"

text \<open>
  \<^verbatim>\<open>s.replace(/x/g, 'y')\<close> replaces every \<open>x\<close>, and \<^verbatim>\<open>s.replace(/=+$/g, '')\<close> removes
  the run of \<^verbatim>\<open>=\<close> that ends the string, if there is one.
\<close>

definition replace_all :: "char \<Rightarrow> char \<Rightarrow> string \<Rightarrow> string" where
  "replace_all x y s = map (\<lambda>c. if c = x then y else c) s"

definition strip_trailing :: "char \<Rightarrow> string \<Rightarrow> string" where
  "strip_trailing x s = rev (dropWhile (\<lambda>c. c = x) (rev s))"

definition toBase64Url :: "string \<Rightarrow> string" where
  "toBase64Url base64 =
     strip_trailing (CHR ''='') (replace_all (CHR ''/'') (CHR ''_'') (replace_all (CHR ''+'') (CHR ''-'') base64))"

text \<open>\<^verbatim>\<open>s.padEnd(n, '=')\<close>\<close>

definition padEnd :: "string \<Rightarrow> nat \<Rightarrow> char \<Rightarrow> string" where
  "padEnd s n c = s @ replicate (n - length s) c"

text \<open>
  The first loop of \<^verbatim>\<open>base64UrlToString\<close>, which fills the array \<^verbatim>\<open>bytes\<close> with numbers
  between 0 and 255: its body at index \<open>i\<close>, and the loop over the padded input.
  \<^verbatim>\<open>Math.ceil(n / 4) * 4\<close> is \<open>(n + 3) div 4 * 4\<close>.
\<close>

definition base64UrlToString_step :: "string \<Rightarrow> nat \<Rightarrow> int list \<Rightarrow> int list" where
  "base64UrlToString_step padded i bytes =
     (let c1 = indexOf BASE64_CHARS (char_at padded (int i));
          c2 = indexOf BASE64_CHARS (char_at padded (int i + 1));
          c3 = (if char_at padded (int i + 2) = Some (CHR ''='') then - 1
                else indexOf BASE64_CHARS (char_at padded (int i + 2)));
          c4 = (if char_at padded (int i + 3) = Some (CHR ''='') then - 1
                else indexOf BASE64_CHARS (char_at padded (int i + 3)));
          chunk = js_or (js_or (js_or (js_shl c1 18) (js_shl c2 12))
                           (js_shl (if c3 < 0 then 0 else c3) 6))
                    (if c4 < 0 then 0 else c4);
          bytes = bytes @ [js_and (js_sar chunk 16) 255];
          bytes = (if 0 \<le> c3 then bytes @ [js_and (js_sar chunk 8) 255] else bytes);
          bytes = (if 0 \<le> c4 then bytes @ [js_and chunk 255] else bytes)
      in bytes)"

definition base64UrlToString_bytes :: "string \<Rightarrow> int list" where
  "base64UrlToString_bytes input =
     (let base64 = replace_all (CHR ''_'') (CHR ''/'') (replace_all (CHR ''-'') (CHR ''+'') input);
          padded = padEnd base64 ((length base64 + 3) div 4 * 4) (CHR ''='')
      in for_loop 0 (length padded) 4 (base64UrlToString_step padded) [])"

text \<open>
  The string of \<^verbatim>\<open>base64UrlToString\<close> is a list of its character codes. \<^verbatim>\<open>TextDecoder\<close> is
  the platform's: \<open>Some decode\<close> is its \<^verbatim>\<open>decode\<close> where the platform has one, and \<open>None\<close>
  a platform without it, where \<^verbatim>\<open>new TextDecoder()\<close> throws and the \<^verbatim>\<open>catch\<close> returns
  \<^verbatim>\<open>output\<close>, built with \<^verbatim>\<open>String.fromCharCode\<close> from each byte.
\<close>

definition base64UrlToString :: "(byte list \<Rightarrow> int list) option \<Rightarrow> string \<Rightarrow> int list" where
  "base64UrlToString TextDecoder_decode input =
     (let bytes = base64UrlToString_bytes input;
          output = for_loop 0 (length bytes) 1 (\<lambda>i output. output @ [bytes ! i]) []
      in case TextDecoder_decode of
           Some decode \<Rightarrow> decode (map word_of_int bytes)
         | None \<Rightarrow> output)"

text \<open>
  The \<^verbatim>\<open>TextDecoder\<close> of the platforms that have one, after the UTF-8 decoder of the WHATWG
  Encoding Standard: \<open>utf8_run\<close> is the decoder's handler with its state (code point, bytes
  seen, bytes needed, lower and upper boundary), which gives U+FFFD for every malformed
  sequence; \<open>strip_bom\<close> drops a leading byte order mark, as a decoder made without
  \<^verbatim>\<open>ignoreBOM\<close> does; \<open>utf16_units\<close> are the code units of a code point in the string.
\<close>

function utf8_run :: "int \<Rightarrow> nat \<Rightarrow> nat \<Rightarrow> int \<Rightarrow> int \<Rightarrow> byte list \<Rightarrow> int list" where
  "utf8_run cp seen needed lower upper [] = (if needed \<noteq> 0 then [65533] else [])"
| "utf8_run cp seen needed lower upper (byte # rest) =
     (let b = uint byte in
      if needed = 0 then
        (if b \<le> 127 then b # utf8_run 0 0 0 128 191 rest
         else if 194 \<le> b \<and> b \<le> 223 then utf8_run (b mod 32) 0 1 128 191 rest
         else if 224 \<le> b \<and> b \<le> 239 then
           utf8_run (b mod 16) 0 2 (if b = 224 then 160 else 128) (if b = 237 then 159 else 191) rest
         else if 240 \<le> b \<and> b \<le> 244 then
           utf8_run (b mod 8) 0 3 (if b = 240 then 144 else 128) (if b = 244 then 143 else 191) rest
         else 65533 # utf8_run 0 0 0 128 191 rest)
      else if \<not> (lower \<le> b \<and> b \<le> upper) then 65533 # utf8_run 0 0 0 128 191 (byte # rest)
      else
        (let cp = cp * 64 + b mod 64 in
         if seen + 1 \<noteq> needed then utf8_run cp (seen + 1) needed 128 191 rest
         else cp # utf8_run 0 0 0 128 191 rest))"
  by pat_completeness auto
termination
  by (relation "measure (\<lambda>(cp, seen, needed, lower, upper, bytes).
        2 * length bytes + (if needed = 0 then 0 else 1))") auto

declare utf8_run.simps [simp del]

definition strip_bom :: "int list \<Rightarrow> int list" where
  "strip_bom cps = (case cps of [] \<Rightarrow> [] | c # rest \<Rightarrow> if c = 65279 then rest else cps)"

definition utf16_units :: "int \<Rightarrow> int list" where
  "utf16_units cp =
     (if cp < 65536 then [cp]
      else [55296 + (cp - 65536) div 1024, 56320 + (cp - 65536) mod 1024])"

definition TextDecoder_utf8 :: "byte list \<Rightarrow> int list" where
  "TextDecoder_utf8 bytes = concat (map utf16_units (strip_bom (utf8_run 0 0 0 128 191 bytes)))"

definition url_safe :: "char \<Rightarrow> bool" where
  "url_safe c =
     (let n = (of_char c :: nat)
      in (65 \<le> n \<and> n \<le> 90) \<or> (97 \<le> n \<and> n \<le> 122) \<or> (48 \<le> n \<and> n \<le> 57)
         \<or> c = CHR ''-'' \<or> c = CHR ''_'')"

section \<open>The bitwise operators on 32-bit words\<close>

text \<open>
  The operators above, read on the 32-bit word of their operand: \<open>ToInt32\<close> is the signed
  and \<open>ToUint32\<close> the unsigned value of that word.
\<close>

abbreviation W :: "int \<Rightarrow> 32 word" where
  "W \<equiv> word_of_int"

lemma ToUint32_uint: "ToUint32 x = uint (W x)"
  by (simp add: ToUint32_def uint_word_of_int)

lemma ToInt32_sint: "ToInt32 x = sint (W x)"
proof -
  have r: "take_bit 32 x = 2 ^ 31 * of_bool (bit x 31) + take_bit 31 x"
    using take_bit_Suc_from_most [of 31 x] by simp
  have b: "0 \<le> take_bit 31 x" "take_bit 31 x < 2 ^ 31"
    using take_bit_int_less_exp [of 31 x] by simp_all
  have "sint (W x) = take_bit 32 x - 2 ^ 32 * of_bool (bit x 31)"
    using signed_take_bit_eq_take_bit_minus [of 31 x] by (simp add: sint_sbintrunc')
  moreover have "ToInt32 x = take_bit 32 x - 2 ^ 32 * of_bool (bit x 31)"
    using r b unfolding ToInt32_def Let_def take_bit_eq_mod [symmetric]
    by (cases "bit x 31") simp_all
  ultimately show ?thesis by simp
qed

lemma sint_or: "sint (a OR b) = sint a OR sint (b :: 'a::len word)"
  by (rule bit_eqI) (auto simp: bit_simps bit_sint_iff)
lemma sint_and: "sint (a AND b) = sint a AND sint (b :: 'a::len word)"
  by (rule bit_eqI) (auto simp: bit_simps bit_sint_iff)
lemma sint_xor: "sint (a XOR b) = sint a XOR sint (b :: 'a::len word)"
  by (rule bit_eqI) (auto simp: bit_simps bit_sint_iff)
lemma sint_not: "sint (NOT a) = NOT (sint (a :: 'a::len word))"
  by (rule bit_eqI) (auto simp: bit_simps bit_sint_iff min_def)
lemma uint_drop_bit: "uint (drop_bit n w) = drop_bit n (uint (w :: 'a::len word))"
  by (rule bit_eqI) (auto simp: bit_simps bit_uint_iff)

lemma js_or_W: "js_or x y = sint (W x OR W y)"
  by (simp add: js_or_def ToInt32_sint sint_or)
lemma js_and_W: "js_and x y = sint (W x AND W y)"
  by (simp add: js_and_def ToInt32_sint sint_and)
lemma js_xor_W: "js_xor x y = sint (W x XOR W y)"
  by (simp add: js_xor_def ToInt32_sint sint_xor)
lemma js_not_W: "js_not x = sint (NOT (W x))"
  by (simp add: js_not_def ToInt32_sint sint_not)
lemma js_sar_W: "js_sar x n = sint (signed_drop_bit (n mod 32) (W x))"
  by (simp add: js_sar_def ToInt32_sint sint_signed_drop_bit_eq drop_bit_eq_div)
lemma js_shl_W: "js_shl x n = sint (push_bit (n mod 32) (W x))"
  by (simp add: js_shl_def ToInt32_sint push_bit_eq_mult wi_hom_syms word_of_int_2p)
lemma js_shr_W: "js_shr x n = uint (drop_bit (n mod 32) (W x))"
  by (simp add: js_shr_def ToUint32_uint uint_drop_bit drop_bit_eq_div [symmetric])

lemma sextet_range: "0 \<le> js_and x 63 \<and> js_and x 63 < 64"
proof -
  have "ToInt32 63 = 63" by (simp add: ToInt32_def)
  then have "js_and x 63 = ToInt32 x AND 63" by (simp add: js_and_def)
  moreover have "0 \<le> ToInt32 x AND 63" by simp
  moreover have "ToInt32 x AND 63 \<le> 63" by (rule AND_upper2) simp
  ultimately show ?thesis by simp
qed


lemma m63: "(63 :: 32 word) = mask 6" and m255: "(255 :: 32 word) = mask 8"
  by (simp_all add: mask_eq_exp_minus_1)


lemma SS: "2 \<le> n \<Longrightarrow> Suc (Suc (n - 2)) = n" by simp

lemma byte_bit_high: "8 \<le> n \<Longrightarrow> \<not> bit (a :: byte) n"
  by (auto dest: bit_imp_le_length)

lemma sint_ucast_byte: "sint (ucast (a :: byte) :: 32 word) = uint a"
proof -
  have u: "uint (ucast a :: 32 word) = uint a"
    by (simp add: uint_up_ucast is_up)
  have "uint a < 2 ^ 8"
    using uint_lt2p [of a] by simp
  moreover have "- (2 ^ 31) \<le> uint a"
    by (rule order_trans [of _ 0]) simp_all
  ultimately have "- (2 ^ 31) \<le> uint a" "uint a < 2 ^ 31"
    by simp_all
  then have "signed_take_bit 31 (uint a) = uint a"
    by (rule signed_take_bit_int_eq_self)
  then show ?thesis
    using u by (simp add: sint_uint)
qed

lemma W_uint_byte: "W (uint (a :: byte)) = ucast a"
  by (rule ucast_eq [symmetric])

text \<open>The \<^verbatim>\<open>triple\<close> of \<^verbatim>\<open>bytesToBase64\<close> and the \<^verbatim>\<open>chunk\<close> of \<^verbatim>\<open>base64UrlToString\<close>.\<close>

definition triple :: "byte \<Rightarrow> byte \<Rightarrow> byte \<Rightarrow> int" where
  "triple a b c = js_or (js_or (js_shl (uint a) 16) (js_shl (uint b) 8)) (uint c)"

definition chunk_of :: "int \<Rightarrow> int \<Rightarrow> int \<Rightarrow> int \<Rightarrow> int" where
  "chunk_of c1 c2 c3 c4 = js_or (js_or (js_or (js_shl c1 18) (js_shl c2 12)) (js_shl c3 6)) c4"

lemmas js_W = js_or_W js_and_W js_sar_W js_shl_W W_uint_byte m63 m255

lemma W_triple: "W (triple a b c) = (push_bit 16 (ucast a) OR push_bit 8 (ucast b)) OR ucast c"
  by (simp add: triple_def js_W)


lemma W_sint: "W (sint (w :: 32 word)) = w"
  by simp

lemma js_sextet: "k \<le> 26 \<Longrightarrow> W (js_and (js_sar t k) 63) = take_bit 6 (drop_bit k (W t))"
  apply (simp add: js_and_W js_sar_W m63 del: mask_eq_exp_minus_1)
  apply (rule bit_word_eqI)
  apply (auto simp: bit_simps bit_signed_drop_bit_iff)
  done

lemma js_low_sextet: "W (js_and t 63) = take_bit 6 (W t)"
  apply (simp add: js_and_W m63 del: mask_eq_exp_minus_1)
  apply (rule bit_word_eqI)
  apply (auto simp: bit_simps)
  done

lemma js_octet: "k \<le> 24 \<Longrightarrow> js_and (js_sar t k) 255 = uint (ucast (drop_bit k (W t)) :: byte)"
proof -
  assume k: "k \<le> 24"
  have "signed_drop_bit k (W t) AND mask 8 = ucast (ucast (drop_bit k (W t)) :: byte)"
    using k
    apply -
    apply (rule bit_word_eqI)
    apply (auto simp: bit_simps bit_signed_drop_bit_iff)
    done
  then show ?thesis
    using k by (simp add: js_and_W [of _ 255] js_sar_W m255 sint_ucast_byte del: mask_eq_exp_minus_1)
qed

lemma js_low_octet: "js_and t 255 = uint (ucast (W t) :: byte)"
proof -
  have "W t AND mask 8 = ucast (ucast (W t) :: byte)"
    apply (rule bit_word_eqI)
    apply (auto simp: bit_simps)
    done
  then show ?thesis
    by (simp add: js_and_W [of _ 255] m255 sint_ucast_byte del: mask_eq_exp_minus_1)
qed

lemma W_chunk_of: "W (chunk_of c1 c2 c3 c4) = ((push_bit 18 (W c1) OR push_bit 12 (W c2)) OR push_bit 6 (W c3)) OR W c4"
  by (simp add: chunk_of_def js_or_W js_shl_W)

lemma T_byte1: "ucast (drop_bit 16 ((push_bit 16 (ucast (a :: byte)) OR push_bit 8 (ucast (b :: byte))) OR ucast (c :: byte) :: 32 word)) = (a :: byte)"
  apply (rule bit_word_eqI)
  apply (auto simp: bit_simps byte_bit_high)
  done
lemma T_byte2: "ucast (drop_bit 8 ((push_bit 16 (ucast (a :: byte)) OR push_bit 8 (ucast (b :: byte))) OR ucast (c :: byte) :: 32 word)) = (b :: byte)"
  apply (rule bit_word_eqI)
  apply (auto simp: bit_simps byte_bit_high)
  done
lemma T_byte3: "ucast ((push_bit 16 (ucast (a :: byte)) OR push_bit 8 (ucast (b :: byte))) OR ucast (c :: byte) :: 32 word) = (c :: byte)"
  apply (rule bit_word_eqI)
  apply (auto simp: bit_simps byte_bit_high)
  done

lemma C_byte1: "(ucast (drop_bit 16 (((push_bit 18 (take_bit 6 (drop_bit 18 T)) OR push_bit 12 (take_bit 6 (drop_bit 12 T))) OR push_bit 6 x3) OR x4)) :: byte)
   = ucast (drop_bit 16 (T :: 32 word))" if "x3 = take_bit 6 x3" "x4 = take_bit 6 x4"
  apply (subst that(1), subst that(2))
  apply (rule bit_word_eqI)
  apply (auto simp: bit_simps SS)
  done

lemma C_byte2: "(ucast (drop_bit 8 (((push_bit 18 (take_bit 6 (drop_bit 18 T)) OR push_bit 12 (take_bit 6 (drop_bit 12 T))) OR push_bit 6 (take_bit 6 (drop_bit 6 T))) OR x4)) :: byte)
   = ucast (drop_bit 8 (T :: 32 word))" if "x4 = take_bit 6 x4"
  apply (subst that(1))
  apply (rule bit_word_eqI)
  apply (auto simp: bit_simps SS)
  done

lemma C_byte3: "(ucast ((((push_bit 18 (take_bit 6 (drop_bit 18 T)) OR push_bit 12 (take_bit 6 (drop_bit 12 T))) OR push_bit 6 (take_bit 6 (drop_bit 6 T))) OR take_bit 6 T)) :: byte)
   = ucast (T :: 32 word)"
  apply (rule bit_word_eqI)
  apply (auto simp: bit_simps SS)
  done


section \<open>The two Base64 loops, group by group\<close>

text \<open>
  \<^verbatim>\<open>bytesToBase64\<close> reads three bytes and writes four characters in each round, and the
  loop of \<^verbatim>\<open>base64UrlToString\<close> reads four characters in each round. \<open>encode_groups\<close>
  and \<open>decode_groups\<close> are the same computations by recursion on the input, and the two
  lemmas \<open>bytesToBase64_groups\<close> and \<open>base64UrlToString_loop\<close> show that the loops compute
  them.
\<close>

definition b64 :: "int \<Rightarrow> char" where
  "b64 k = BASE64_CHARS ! nat k"

fun encode_groups :: "byte list \<Rightarrow> string" where
  "encode_groups [] = []"
| "encode_groups [a] =
     [b64 (js_and (js_sar (triple a 0 0) 18) 63), b64 (js_and (js_sar (triple a 0 0) 12) 63),
      CHR ''='', CHR ''='']"
| "encode_groups [a, b] =
     [b64 (js_and (js_sar (triple a b 0) 18) 63), b64 (js_and (js_sar (triple a b 0) 12) 63),
      b64 (js_and (js_sar (triple a b 0) 6) 63), CHR ''='']"
| "encode_groups (a # b # c # rest) =
     [b64 (js_and (js_sar (triple a b c) 18) 63), b64 (js_and (js_sar (triple a b c) 12) 63),
      b64 (js_and (js_sar (triple a b c) 6) 63), b64 (js_and (triple a b c) 63)]
     @ encode_groups rest"

lemma length_BASE64_CHARS: "length BASE64_CHARS = 64"
  by (simp add: BASE64_CHARS_def)

lemma char_at_sextet: "char_at BASE64_CHARS (js_and x 63) = Some (b64 (js_and x 63))"
  using sextet_range [of x] by (simp add: char_at_def b64_def length_BASE64_CHARS)

lemma step_full:
  assumes "i + 2 < length bytes"
  shows "bytesToBase64_step bytes i acc
    = acc @ [b64 (js_and (js_sar (triple (bytes ! i) (bytes ! (i + 1)) (bytes ! (i + 2))) 18) 63),
             b64 (js_and (js_sar (triple (bytes ! i) (bytes ! (i + 1)) (bytes ! (i + 2))) 12) 63),
             b64 (js_and (js_sar (triple (bytes ! i) (bytes ! (i + 1)) (bytes ! (i + 2))) 6) 63),
             b64 (js_and (triple (bytes ! i) (bytes ! (i + 1)) (bytes ! (i + 2))) 63)]"
  using assms
  by (simp add: bytesToBase64_step_def Let_def char_at_sextet append_char_def triple_def)

lemma step_two:
  assumes "i + 2 = length bytes"
  shows "bytesToBase64_step bytes i acc
    = acc @ [b64 (js_and (js_sar (triple (bytes ! i) (bytes ! (i + 1)) 0) 18) 63),
             b64 (js_and (js_sar (triple (bytes ! i) (bytes ! (i + 1)) 0) 12) 63),
             b64 (js_and (js_sar (triple (bytes ! i) (bytes ! (i + 1)) 0) 6) 63),
             CHR ''='']"
  using assms
  by (simp add: bytesToBase64_step_def Let_def char_at_sextet append_char_def triple_def)

lemma step_one:
  assumes "i + 1 = length bytes"
  shows "bytesToBase64_step bytes i acc
    = acc @ [b64 (js_and (js_sar (triple (bytes ! i) 0 0) 18) 63),
             b64 (js_and (js_sar (triple (bytes ! i) 0 0) 12) 63),
             CHR ''='', CHR ''='']"
  using assms
  by (simp add: bytesToBase64_step_def Let_def char_at_sextet append_char_def triple_def)

lemma drop_one: "i + 1 = length xs \<Longrightarrow> drop i xs = [xs ! i]"
  by (metis Cons_nth_drop_Suc Suc_eq_plus1 drop_all lessI order_refl)

lemma drop_two: "i + 2 = length xs \<Longrightarrow> drop i xs = [xs ! i, xs ! (i + 1)]"
proof -
  assume h: "i + 2 = length xs"
  then have "drop i xs = xs ! i # drop (Suc i) xs"
    by (simp add: Cons_nth_drop_Suc)
  moreover have "drop (Suc i) xs = [xs ! (i + 1)]"
    using h drop_one [of "Suc i" xs] by simp
  ultimately show ?thesis by simp
qed

lemma drop_three: "i + 2 < length xs \<Longrightarrow> drop i xs = xs ! i # xs ! (i + 1) # xs ! (i + 2) # drop (i + 3) xs"
proof -
  assume h: "i + 2 < length xs"
  have "drop i xs = xs ! i # drop (Suc i) xs"
    using h by (simp add: Cons_nth_drop_Suc)
  moreover have "drop (Suc i) xs = xs ! (Suc i) # drop (Suc (Suc i)) xs"
    using h by (simp add: Cons_nth_drop_Suc)
  moreover have "drop (Suc (Suc i)) xs = xs ! (Suc (Suc i)) # drop (Suc (Suc (Suc i))) xs"
    using h by (simp add: Cons_nth_drop_Suc)
  ultimately show ?thesis by (simp add: numeral_3_eq_3)
qed

lemma bytesToBase64_loop:
  "i \<le> length bytes \<Longrightarrow>
   for_loop i (length bytes) 3 (bytesToBase64_step bytes) acc = acc @ encode_groups (drop i bytes)"
proof (induction "length bytes - i" arbitrary: i acc rule: less_induct)
  case less
  consider "i = length bytes" | "i + 1 = length bytes" | "i + 2 = length bytes" | "i + 2 < length bytes"
    using less.prems by linarith
  then show ?case
  proof cases
    case 1
    then show ?thesis by (simp add: for_loop_done)
  next
    case 2
    then show ?thesis
      by (simp add: for_loop_step for_loop_done step_one drop_one)
  next
    case 3
    then show ?thesis
      by (simp add: for_loop_step for_loop_done step_two drop_two)
  next
    case 4
    then have "for_loop i (length bytes) 3 (bytesToBase64_step bytes) acc
        = for_loop (i + 3) (length bytes) 3 (bytesToBase64_step bytes) (bytesToBase64_step bytes i acc)"
      by (simp add: for_loop_step)
    also have "\<dots> = bytesToBase64_step bytes i acc @ encode_groups (drop (i + 3) bytes)"
      using 4 by (intro less.hyps) auto
    finally show ?thesis
      using 4 by (simp add: step_full drop_three)
  qed
qed

lemma bytesToBase64_groups: "bytesToBase64 bytes = encode_groups bytes"
  by (simp add: bytesToBase64_def bytesToBase64_loop)


definition unb64 :: "char \<Rightarrow> int" where
  "unb64 c = indexOf BASE64_CHARS (Some c)"

definition decode_group :: "char \<Rightarrow> char \<Rightarrow> char \<Rightarrow> char \<Rightarrow> int list" where
  "decode_group x1 x2 x3 x4 =
     (let c1 = unb64 x1;
          c2 = unb64 x2;
          c3 = (if x3 = CHR ''='' then - 1 else unb64 x3);
          c4 = (if x4 = CHR ''='' then - 1 else unb64 x4);
          chunk = chunk_of c1 c2 (if c3 < 0 then 0 else c3) (if c4 < 0 then 0 else c4)
      in [js_and (js_sar chunk 16) 255]
         @ (if 0 \<le> c3 then [js_and (js_sar chunk 8) 255] else [])
         @ (if 0 \<le> c4 then [js_and chunk 255] else []))"

fun decode_groups :: "string \<Rightarrow> int list" where
  "decode_groups (x1 # x2 # x3 # x4 # rest) = decode_group x1 x2 x3 x4 @ decode_groups rest"
| "decode_groups _ = []"

lemma drop_four:
  "i + 3 < length xs \<Longrightarrow>
   drop i xs = xs ! i # xs ! (i + 1) # xs ! (i + 2) # xs ! (i + 3) # drop (i + 4) xs"
proof -
  assume h: "i + 3 < length xs"
  have "Suc (i + 3) = i + 4"
    by simp
  then have "drop (i + 3) xs = xs ! (i + 3) # drop (i + 4) xs"
    using h Cons_nth_drop_Suc [of "i + 3" xs] by metis
  then show ?thesis
    using h drop_three [of i xs] by simp
qed

lemma base64UrlToString_step_group:
  assumes "i + 3 < length padded"
  shows "base64UrlToString_step padded i acc
    = acc @ decode_group (padded ! i) (padded ! (i + 1)) (padded ! (i + 2)) (padded ! (i + 3))"
proof -
  have c: "char_at padded (int i) = Some (padded ! i)"
    "char_at padded (int i + 1) = Some (padded ! (i + 1))"
    "char_at padded (int i + 2) = Some (padded ! (i + 2))"
    "char_at padded (int i + 3) = Some (padded ! (i + 3))"
    using assms by (simp_all add: char_at_def nat_add_distrib)
  show ?thesis
    unfolding base64UrlToString_step_def decode_group_def c Let_def unb64_def chunk_of_def
    by simp
qed

lemma base64UrlToString_loop:
  "length padded mod 4 = 0 \<Longrightarrow> i mod 4 = 0 \<Longrightarrow> i \<le> length padded \<Longrightarrow>
   for_loop i (length padded) 4 (base64UrlToString_step padded) acc
     = acc @ decode_groups (drop i padded)"
proof (induction "length padded - i" arbitrary: i acc rule: less_induct)
  case less
  show ?case
  proof (cases "i = length padded")
    case True
    then show ?thesis by (simp add: for_loop_done)
  next
    case False
    then have lt: "i + 3 < length padded"
      using less.prems by presburger
    have "for_loop i (length padded) 4 (base64UrlToString_step padded) acc
        = for_loop (i + 4) (length padded) 4 (base64UrlToString_step padded)
            (base64UrlToString_step padded i acc)"
      using lt by (simp add: for_loop_step)
    also have "\<dots> = base64UrlToString_step padded i acc @ decode_groups (drop (i + 4) padded)"
      using lt less.prems by (intro less.hyps) auto
    finally show ?thesis
      using lt by (simp add: base64UrlToString_step_group drop_four)
  qed
qed

lemma distinct_BASE64_CHARS: "distinct BASE64_CHARS"
  by (simp add: BASE64_CHARS_def)

lemma index_from_nth:
  "distinct s \<Longrightarrow> k < length s \<Longrightarrow> index_from s (s ! k) j = j + int k"
proof (induction s arbitrary: k j)
  case Nil
  then show ?case by simp
next
  case (Cons x xs)
  show ?case
  proof (cases k)
    case 0
    then show ?thesis by simp
  next
    case (Suc m)
    then have "xs ! m \<noteq> x"
      using Cons.prems by (metis Suc_less_eq distinct.simps(2) length_Cons nth_mem)
    then show ?thesis
      using Cons Suc by simp
  qed
qed

lemma unb64_b64: "0 \<le> k \<Longrightarrow> k < 64 \<Longrightarrow> unb64 (b64 k) = k"
  using index_from_nth [OF distinct_BASE64_CHARS, of "nat k" 0]
  by (simp add: unb64_def b64_def indexOf_def length_BASE64_CHARS)

lemma b64_in: "0 \<le> k \<Longrightarrow> k < 64 \<Longrightarrow> b64 k \<in> set BASE64_CHARS"
  by (simp add: b64_def length_BASE64_CHARS)

lemma pad_not_in: "CHR ''='' \<notin> set BASE64_CHARS"
  by (simp add: BASE64_CHARS_def)

lemma b64_not_pad: "0 \<le> k \<Longrightarrow> k < 64 \<Longrightarrow> b64 k \<noteq> CHR ''=''"
  using b64_in [of k] pad_not_in by auto

lemmas sextet_facts =
  sextet_range [THEN conjunct1] sextet_range [THEN conjunct2]

lemma unb64_sextet [simp]: "unb64 (b64 (js_and x 63)) = js_and x 63"
  by (simp add: unb64_b64 sextet_facts)

lemma b64_sextet_not_pad [simp]: "b64 (js_and x 63) \<noteq> CHR ''=''"
  by (simp add: b64_not_pad sextet_facts)

lemma sextet_nonneg [simp]: "0 \<le> js_and x 63" "\<not> js_and x 63 < 0"
  using sextet_range [of x] by simp_all

lemmas js_sextet_18 = js_sextet [of 18, simplified]
lemmas js_sextet_12 = js_sextet [of 12, simplified]
lemmas js_sextet_6 = js_sextet [of 6, simplified]
lemmas js_octet_16 = js_octet [of 16, simplified]
lemmas js_octet_8 = js_octet [of 8, simplified]

lemma six_bits_zero: "W 0 = take_bit 6 (W 0)"
  by simp

lemma six_bits_sextet: "W (js_and x 63) = take_bit 6 (W (js_and x 63))"
  by (simp add: js_low_sextet)

lemma triple_byte1: "(ucast (drop_bit 16 (W (triple a b c))) :: byte) = a"
  unfolding W_triple by (rule T_byte1)

lemma triple_byte2: "(ucast (drop_bit 8 (W (triple a b c))) :: byte) = b"
  unfolding W_triple by (rule T_byte2)

lemma triple_byte3: "(ucast (W (triple a b c)) :: byte) = c"
  unfolding W_triple by (rule T_byte3)

lemma chunk_byte1:
  assumes "W c3 = take_bit 6 (W c3)" and "W c4 = take_bit 6 (W c4)"
  shows "js_and (js_sar (chunk_of (js_and (js_sar (triple a b c) 18) 63)
                           (js_and (js_sar (triple a b c) 12) 63) c3 c4) 16) 255 = uint a"
proof -
  have "(ucast (drop_bit 16 (W (chunk_of (js_and (js_sar (triple a b c) 18) 63)
                           (js_and (js_sar (triple a b c) 12) 63) c3 c4))) :: byte)
      = ucast (drop_bit 16 (W (triple a b c)))"
    unfolding W_chunk_of js_sextet_18 js_sextet_12 by (rule C_byte1) (rule assms)+
  then show ?thesis
    unfolding js_octet_16 triple_byte1 by simp
qed

lemma chunk_byte2:
  assumes "W c4 = take_bit 6 (W c4)"
  shows "js_and (js_sar (chunk_of (js_and (js_sar (triple a b c) 18) 63)
                           (js_and (js_sar (triple a b c) 12) 63)
                           (js_and (js_sar (triple a b c) 6) 63) c4) 8) 255 = uint b"
proof -
  have "(ucast (drop_bit 8 (W (chunk_of (js_and (js_sar (triple a b c) 18) 63)
                           (js_and (js_sar (triple a b c) 12) 63)
                           (js_and (js_sar (triple a b c) 6) 63) c4))) :: byte)
      = ucast (drop_bit 8 (W (triple a b c)))"
    unfolding W_chunk_of js_sextet_18 js_sextet_12 js_sextet_6 by (rule C_byte2) (rule assms)
  then show ?thesis
    unfolding js_octet_8 triple_byte2 by simp
qed

lemma chunk_byte3:
  "js_and (chunk_of (js_and (js_sar (triple a b c) 18) 63)
                    (js_and (js_sar (triple a b c) 12) 63)
                    (js_and (js_sar (triple a b c) 6) 63)
                    (js_and (triple a b c) 63)) 255 = uint c"
proof -
  have "(ucast (W (chunk_of (js_and (js_sar (triple a b c) 18) 63)
                           (js_and (js_sar (triple a b c) 12) 63)
                           (js_and (js_sar (triple a b c) 6) 63)
                           (js_and (triple a b c) 63))) :: byte)
      = ucast (W (triple a b c))"
    apply (simp only: W_chunk_of js_sextet_18 js_sextet_12 js_sextet_6)
    apply (simp only: js_low_sextet)
    apply (rule C_byte3)
    done
  then show ?thesis
    unfolding js_low_octet triple_byte3 by simp
qed

lemma decode_group_one:
  "decode_group (b64 (js_and (js_sar (triple a 0 0) 18) 63)) (b64 (js_and (js_sar (triple a 0 0) 12) 63))
     (CHR ''='') (CHR ''='') = [uint a]"
  by (simp add: decode_group_def Let_def chunk_byte1 [OF six_bits_zero six_bits_zero])

lemma decode_group_two:
  "decode_group (b64 (js_and (js_sar (triple a b 0) 18) 63)) (b64 (js_and (js_sar (triple a b 0) 12) 63))
     (b64 (js_and (js_sar (triple a b 0) 6) 63)) (CHR ''='') = [uint a, uint b]"
  by (simp add: decode_group_def Let_def chunk_byte1 [OF six_bits_sextet six_bits_zero]
      chunk_byte2 [OF six_bits_zero])

lemma decode_group_three:
  "decode_group (b64 (js_and (js_sar (triple a b c) 18) 63)) (b64 (js_and (js_sar (triple a b c) 12) 63))
     (b64 (js_and (js_sar (triple a b c) 6) 63)) (b64 (js_and (triple a b c) 63)) = [uint a, uint b, uint c]"
  by (simp add: decode_group_def Let_def chunk_byte1 [OF six_bits_sextet six_bits_sextet]
      chunk_byte2 [OF six_bits_sextet] chunk_byte3)

lemma decode_encode_groups: "decode_groups (encode_groups x) = map uint x"
  by (induction x rule: encode_groups.induct)
    (simp_all add: decode_group_one decode_group_two decode_group_three)


lemma b64_sextet_in [simp]: "b64 (js_and x 63) \<in> set BASE64_CHARS"
  by (simp add: b64_in sextet_facts)

lemma encode_groups_shape:
  "\<exists>core k. encode_groups x = core @ replicate k (CHR ''='') \<and> k \<le> 2
      \<and> set core \<subseteq> set BASE64_CHARS \<and> (length core + k) mod 4 = 0"
proof (induction x rule: encode_groups.induct)
  case 1
  show ?case by simp
next
  case (2 a)
  let ?core = "[b64 (js_and (js_sar (triple a 0 0) 18) 63), b64 (js_and (js_sar (triple a 0 0) 12) 63)]"
  show ?case
  proof (intro exI conjI)
    show "encode_groups [a] = ?core @ replicate 2 (CHR ''='')" by (simp add: numeral_2_eq_2)
    show "(2 :: nat) \<le> 2" by simp
    show "set ?core \<subseteq> set BASE64_CHARS" by simp
    show "(length ?core + 2) mod 4 = 0" by simp
  qed
next
  case (3 a b)
  let ?core = "[b64 (js_and (js_sar (triple a b 0) 18) 63), b64 (js_and (js_sar (triple a b 0) 12) 63),
                b64 (js_and (js_sar (triple a b 0) 6) 63)]"
  show ?case
  proof (intro exI conjI)
    show "encode_groups [a, b] = ?core @ replicate 1 (CHR ''='')" by simp
    show "(1 :: nat) \<le> 2" by simp
    show "set ?core \<subseteq> set BASE64_CHARS" by simp
    show "(length ?core + 1) mod 4 = 0" by simp
  qed
next
  case (4 a b c rest)
  from "4.IH" obtain core k where h: "encode_groups rest = core @ replicate k (CHR ''='')" "k \<le> 2"
      "set core \<subseteq> set BASE64_CHARS" "(length core + k) mod 4 = 0"
    by auto
  let ?g = "[b64 (js_and (js_sar (triple a b c) 18) 63), b64 (js_and (js_sar (triple a b c) 12) 63),
      b64 (js_and (js_sar (triple a b c) 6) 63), b64 (js_and (triple a b c) 63)]"
  have e: "encode_groups (a # b # c # rest) = (?g @ core) @ replicate k (CHR ''='')"
    using h(1) by simp
  have s: "set (?g @ core) \<subseteq> set BASE64_CHARS"
    using h(3) by simp
  have l: "(length (?g @ core) + k) mod 4 = 0"
    using h(4) by simp
  show ?case
  proof (intro exI conjI)
    show "encode_groups (a # b # c # rest) = (?g @ core) @ replicate k (CHR ''='')" by (fact e)
    show "k \<le> 2" by (fact h(2))
    show "set (?g @ core) \<subseteq> set BASE64_CHARS" by (fact s)
    show "(length (?g @ core) + k) mod 4 = 0" by (fact l)
  qed
qed

lemma strip_trailing_padding:
  "x \<notin> set core \<Longrightarrow> strip_trailing x (core @ replicate k x) = core"
proof -
  assume h: "x \<notin> set core"
  have "dropWhile (\<lambda>c. c = x) (replicate k x @ rev core) = dropWhile (\<lambda>c. c = x) (rev core)"
    by (rule dropWhile_append2) simp
  also have "\<dots> = rev core"
    using h by (cases "rev core") (auto simp: dropWhile_eq_self_iff)
  finally show ?thesis
    by (simp add: strip_trailing_def)
qed

lemma replace_all_append: "replace_all x y (s @ t) = replace_all x y s @ replace_all x y t"
  by (simp add: replace_all_def)

lemma replace_all_replicate: "c \<noteq> x \<Longrightarrow> replace_all x y (replicate k c) = replicate k c"
  by (simp add: replace_all_def)

lemma length_replace_all [simp]: "length (replace_all x y s) = length s"
  by (simp add: replace_all_def)

lemma alphabet_chars:
  "c \<in> set BASE64_CHARS \<Longrightarrow> c \<noteq> CHR ''-'' \<and> c \<noteq> CHR ''_'' \<and> c \<noteq> CHR ''=''"
proof -
  have "list_all (\<lambda>c. c \<noteq> CHR ''-'' \<and> c \<noteq> CHR ''_'' \<and> c \<noteq> CHR ''='') BASE64_CHARS"
    by (simp add: BASE64_CHARS_def)
  then show "c \<in> set BASE64_CHARS \<Longrightarrow> c \<noteq> CHR ''-'' \<and> c \<noteq> CHR ''_'' \<and> c \<noteq> CHR ''=''"
    unfolding list_all_iff by (rule bspec)
qed

lemma url_of_core:
  assumes "set core \<subseteq> set BASE64_CHARS"
  shows "replace_all (CHR ''_'') (CHR ''/'') (replace_all (CHR ''-'') (CHR ''+'')
           (replace_all (CHR ''/'') (CHR ''_'') (replace_all (CHR ''+'') (CHR ''-'') core))) = core"
    and "CHR ''='' \<notin> set (replace_all (CHR ''/'') (CHR ''_'') (replace_all (CHR ''+'') (CHR ''-'') core))"
proof -
  have c: "c \<noteq> CHR ''-'' \<and> c \<noteq> CHR ''_'' \<and> c \<noteq> CHR ''=''" if "c \<in> set core" for c
    using that assms alphabet_chars by blast
  let ?h = "(\<lambda>c. if c = CHR ''_'' then CHR ''/'' else c) \<circ> (\<lambda>c. if c = CHR ''-'' then CHR ''+'' else c)
      \<circ> (\<lambda>c. if c = CHR ''/'' then CHR ''_'' else c) \<circ> (\<lambda>c. if c = CHR ''+'' then CHR ''-'' else c)"
  have "?h x = x" if "x \<in> set core" for x
    using c [OF that] by simp
  then have "map ?h core = core"
    by (rule map_idI)
  then show "replace_all (CHR ''_'') (CHR ''/'') (replace_all (CHR ''-'') (CHR ''+'')
           (replace_all (CHR ''/'') (CHR ''_'') (replace_all (CHR ''+'') (CHR ''-'') core))) = core"
    by (simp add: replace_all_def comp_assoc)
  show "CHR ''='' \<notin> set (replace_all (CHR ''/'') (CHR ''_'') (replace_all (CHR ''+'') (CHR ''-'') core))"
    using c by (auto simp: replace_all_def split: if_splits)
qed

lemma padEnd_core:
  assumes "k \<le> 2" and "(length core + k) mod 4 = 0"
  shows "padEnd core ((length core + 3) div 4 * 4) c = core @ replicate k c"
proof -
  from assms(2) obtain q where q: "length core + k = 4 * q"
    by (auto simp: mod_eq_0_iff_dvd elim: dvdE)
  have "length core + 3 = 4 * q + (3 - k)"
    using q assms(1) by linarith
  then have "(length core + 3) div 4 = q"
    by simp
  then have "(length core + 3) div 4 * 4 - length core = k"
    using q by simp
  then show ?thesis by (simp add: padEnd_def)
qed

lemma bytesToBase64_shape:
  obtains core k where "bytesToBase64 x = core @ replicate k (CHR ''='')" and "k \<le> 2"
    and "set core \<subseteq> set BASE64_CHARS" and "(length core + k) mod 4 = 0"
  using encode_groups_shape [of x] unfolding bytesToBase64_groups by auto

lemma toBase64Url_core:
  assumes "set core \<subseteq> set BASE64_CHARS"
  shows "toBase64Url (core @ replicate k (CHR ''=''))
    = replace_all (CHR ''/'') (CHR ''_'') (replace_all (CHR ''+'') (CHR ''-'') core)"
  using url_of_core(2) [OF assms]
  by (simp add: toBase64Url_def replace_all_append replace_all_replicate strip_trailing_padding)

lemma base64UrlToString_bytes_roundtrip:
  "base64UrlToString_bytes (toBase64Url (bytesToBase64 x)) = map uint x"
proof -
  obtain core k where h: "bytesToBase64 x = core @ replicate k (CHR ''='')" "k \<le> 2"
    "set core \<subseteq> set BASE64_CHARS" "(length core + k) mod 4 = 0"
    by (rule bytesToBase64_shape)
  let ?padded = "core @ replicate k (CHR ''='')"
  have len: "length ?padded mod 4 = 0"
    using h(4) by simp
  have "base64UrlToString_bytes (toBase64Url (bytesToBase64 x))
      = for_loop 0 (length ?padded) 4 (base64UrlToString_step ?padded) []"
    unfolding h(1) toBase64Url_core [OF h(3)] base64UrlToString_bytes_def
    by (simp add: Let_def url_of_core(1) [OF h(3)] padEnd_core [OF h(2) h(4)] del: replicate_eq_replicate)
  also have "\<dots> = decode_groups ?padded"
    using base64UrlToString_loop [OF len, of 0 "[]"] by simp
  also have "\<dots> = map uint x"
    using decode_encode_groups [of x] by (simp add: h(1) [symmetric] bytesToBase64_groups)
  finally show ?thesis .
qed


section \<open>The random string, the Base64URL alphabet and the round trip\<close>

lemma for_loop_fold_Suc: "for_loop i n (Suc 0) body s = fold body [i..<n] s"
  using for_loop_fold [of i n body s] by simp

lemma fold_append_char:
  "fold (\<lambda>i out. out @ [f i]) xs acc = acc @ map f xs"
  by (induction xs arbitrary: acc) simp_all

lemma length_fold_update:
  "length (fold (\<lambda>i a. a[i := f i]) xs a) = length a"
  by (induction xs arbitrary: a) simp_all

lemma length_PKCE_CHARSET: "length PKCE_CHARSET = 66"
  by (simp add: PKCE_CHARSET_def)

lemma unreserved_PKCE_CHARSET: "list_all unreserved PKCE_CHARSET"
  by (simp add: PKCE_CHARSET_def unreserved_def)

lemma char_at_PKCE:
  "char_at PKCE_CHARSET (uint (b :: byte) mod int (length PKCE_CHARSET))
     = Some (PKCE_CHARSET ! nat (uint b mod 66))"
  by (simp add: char_at_def length_PKCE_CHARSET)

lemma randomString_map:
  "\<exists>array :: byte list. length array = n
     \<and> randomString source n = map (\<lambda>i. PKCE_CHARSET ! nat (uint (array ! i) mod 66)) [0..<n]"
proof -
  define array where "array = (case source of
                     SecureRandom g \<Rightarrow> map g [0..<length (replicate n (0 :: byte))]
                   | MathRandom r \<Rightarrow> for_loop 0 n 1 (\<lambda>i a. a[i := of_nat (r i)]) (replicate n (0 :: byte)))"
  have len: "length array = n"
    by (cases source) (simp_all add: array_def for_loop_fold_Suc length_fold_update)
  have "randomString source n
      = for_loop 0 (length array) 1
           (\<lambda>i output. append_char output
                (char_at PKCE_CHARSET (uint (array ! i) mod int (length PKCE_CHARSET)))) []"
    by (simp add: randomString_def array_def Let_def)
  also have "\<dots> = map (\<lambda>i. PKCE_CHARSET ! nat (uint (array ! i) mod 66)) [0..<n]"
    by (simp add: for_loop_fold_Suc char_at_PKCE append_char_def fold_append_char len)
  finally have r: "randomString source n
      = map (\<lambda>i. PKCE_CHARSET ! nat (uint (array ! i) mod 66)) [0..<n]" .
  show ?thesis
  proof (intro exI conjI)
    show "length array = n" by (fact len)
    show "randomString source n
      = map (\<lambda>i. PKCE_CHARSET ! nat (uint (array ! i) mod 66)) [0..<n]" by (fact r)
  qed
qed

lemma randomString_subset: "set (randomString source n) \<subseteq> set PKCE_CHARSET"
proof -
  obtain array :: "byte list" where "randomString source n
      = map (\<lambda>i. PKCE_CHARSET ! nat (uint (array ! i) mod 66)) [0..<n]"
    using randomString_map [of n source] by auto
  moreover have "nat (uint b mod 66) < length PKCE_CHARSET" for b :: byte
    by (simp add: length_PKCE_CHARSET nat_less_iff)
  ultimately show ?thesis
    by (auto simp del: upt_Suc intro!: nth_mem)
qed

text \<open>
  C9: for every length \<open>n\<close> and every random source (the secure one or the fallback,
  with any values), \<^verbatim>\<open>randomString(n)\<close> has exactly \<open>n\<close> characters, and each of them is an
  unreserved character of PKCE, \<^verbatim>\<open>[A-Za-z0-9-._~]\<close>. The state of a sign-in attempt is
  \<^verbatim>\<open>randomString(32)\<close> and has 32 characters; the code verifier is \<^verbatim>\<open>randomString(64)\<close>
  and has 64 characters, between 43 and 128.
\<close>

theorem randomString_length_and_charset:
  "length (randomString source n) = n
   \<and> list_all unreserved (randomString source n)
   \<and> length (randomString source 32) = 32
   \<and> length (randomString source 64) = 64 \<and> 43 \<le> length (randomString source 64)
   \<and> length (randomString source 64) \<le> 128"
proof -
  have len: "length (randomString s k) = k" for s k
  proof -
    obtain array :: "byte list" where "randomString s k
        = map (\<lambda>i. PKCE_CHARSET ! nat (uint (array ! i) mod 66)) [0..<k]"
      using randomString_map [of k s] by auto
    then show ?thesis by simp
  qed
  have "list_all unreserved (randomString source n)"
    using randomString_subset [of source n] unreserved_PKCE_CHARSET
    by (auto simp: list_all_iff)
  then show ?thesis
    by (simp add: len)
qed

lemma url_safe_alphabet:
  "c \<in> set BASE64_CHARS \<Longrightarrow>
     url_safe (if (if c = CHR ''+'' then CHR ''-'' else c) = CHR ''/'' then CHR ''_''
               else (if c = CHR ''+'' then CHR ''-'' else c))"
proof -
  have "list_all (\<lambda>c. url_safe (if (if c = CHR ''+'' then CHR ''-'' else c) = CHR ''/'' then CHR ''_''
               else (if c = CHR ''+'' then CHR ''-'' else c))) BASE64_CHARS"
    by (simp add: BASE64_CHARS_def url_safe_def)
  then show "c \<in> set BASE64_CHARS \<Longrightarrow> ?thesis"
    unfolding list_all_iff by (rule bspec)
qed

lemma list_all_map_I: "(\<And>c. c \<in> set xs \<Longrightarrow> P (f c)) \<Longrightarrow> list_all P (map f xs)"
  by (induction xs) simp_all

lemma url_safe_chars:
  "url_safe c \<Longrightarrow> c \<noteq> CHR ''+'' \<and> c \<noteq> CHR ''/'' \<and> c \<noteq> CHR ''=''"
  by (auto simp: url_safe_def)

lemma takeWhile_core:
  "x \<notin> set core \<Longrightarrow> takeWhile (\<lambda>c. c \<noteq> x) (core @ replicate k x) = core"
proof -
  assume h: "x \<notin> set core"
  have "takeWhile (\<lambda>c. c \<noteq> x) (core @ replicate k x) = core @ takeWhile (\<lambda>c. c \<noteq> x) (replicate k x)"
    using h by (intro takeWhile_append2) auto
  moreover have "takeWhile (\<lambda>c. c \<noteq> x) (replicate k x) = []"
    by (cases k) simp_all
  ultimately show ?thesis by simp
qed

section \<open>Standard Base64, as RFC 4648 words it\<close>

text \<open>
  The encoding of RFC 4648, section 4, written from the words of the standard and not from the
  source: the input is read in groups of 24 bits, three bytes with the first byte the most
  significant, and each group gives four characters, one for each 6-bit value from the most
  significant to the least, looked up in the table \<^verbatim>\<open>A-Z\<close> (0 to 25), \<^verbatim>\<open>a-z\<close> (26 to 51),
  \<^verbatim>\<open>0-9\<close> (52 to 61), \<^verbatim>\<open>+\<close> (62), \<^verbatim>\<open>/\<close> (63). A last group of one byte (8 bits) is filled with
  zero bits to 12 bits and gives two characters and \<^verbatim>\<open>==\<close>; a last group of two bytes (16 bits)
  is filled to 18 bits and gives three characters and \<^verbatim>\<open>=\<close>.
\<close>

definition base64_table :: "nat \<Rightarrow> char" where
  "base64_table v =
     (if v < 26 then char_of (65 + v)
      else if v < 52 then char_of (97 + (v - 26))
      else if v < 62 then char_of (48 + (v - 52))
      else if v = 62 then CHR ''+''
      else CHR ''/'')"

fun rfc4648_base64 :: "byte list \<Rightarrow> string" where
  "rfc4648_base64 [] = []"
| "rfc4648_base64 [a] =
     (let n = unat a * 16
      in [base64_table (n div 64), base64_table (n mod 64), CHR ''='', CHR ''=''])"
| "rfc4648_base64 [a, b] =
     (let n = (unat a * 256 + unat b) * 4
      in [base64_table (n div 4096), base64_table (n div 64 mod 64), base64_table (n mod 64),
          CHR ''=''])"
| "rfc4648_base64 (a # b # c # rest) =
     (let n = unat a * 65536 + unat b * 256 + unat c
      in [base64_table (n div 262144), base64_table (n div 4096 mod 64),
          base64_table (n div 64 mod 64), base64_table (n mod 64)])
     @ rfc4648_base64 rest"

lemma table_BASE64_CHARS: "map base64_table [0..<64] = BASE64_CHARS"
  by code_simp

lemma b64_table: "0 \<le> k \<Longrightarrow> k < 64 \<Longrightarrow> b64 k = base64_table (nat k)"
proof -
  assume "0 \<le> k" "k < 64"
  then have "nat k < 64" by simp
  then have "map base64_table [0..<64] ! nat k = base64_table (nat k)"
    by (simp del: upt_Suc)
  then show ?thesis
    by (simp add: b64_def table_BASE64_CHARS)
qed

lemma uint_push_byte: "n \<le> 24 \<Longrightarrow> uint (push_bit n (ucast (a :: byte)) :: 32 word) = push_bit n (uint a)"
  by (rule bit_eqI) (auto simp: bit_simps bit_uint_iff dest: bit_imp_le_length)

lemma uint_ucast_byte: "uint (ucast (a :: byte) :: 32 word) = uint a"
  by (rule bit_eqI) (auto simp: bit_simps bit_uint_iff dest: bit_imp_le_length)

lemma concat_bytes:
  "(push_bit 16 (uint (a :: byte)) OR push_bit 8 (uint (b :: byte))) OR uint (c :: byte)
     = uint a * 65536 + uint b * 256 + uint c"
proof -
  have 1: "push_bit 16 (uint a) + push_bit 8 (uint b) = push_bit 16 (uint a) OR push_bit 8 (uint b)"
    by (rule disjunctive_add) (auto simp: bit_simps bit_uint_iff dest: bit_imp_le_length)
  have 2: "(push_bit 16 (uint a) OR push_bit 8 (uint b)) + uint c
      = (push_bit 16 (uint a) OR push_bit 8 (uint b)) OR uint c"
    by (rule disjunctive_add) (auto simp: bit_simps bit_uint_iff dest: bit_imp_le_length)
  show ?thesis
    using 1 2 by (simp add: push_bit_eq_mult)
qed

lemma uint_W_triple: "uint (W (triple a b c)) = uint a * 65536 + uint b * 256 + uint c"
  by (simp add: W_triple uint_or uint_push_byte uint_ucast_byte concat_bytes)

lemma uint_W_small: "0 \<le> s \<Longrightarrow> s < 64 \<Longrightarrow> uint (W s) = s"
  by (simp add: uint_word_of_int_eq take_bit_int_eq_self)

lemma take_bit_uint32: "take_bit 32 (uint (w :: 32 word)) = uint w"
proof (rule take_bit_int_eq_self)
  show "0 \<le> uint w" by simp
  show "uint w < 2 ^ 32" using uint_lt2p [of w] by simp
qed

lemma sextet_value:
  assumes "k \<le> 26"
  shows "js_and (js_sar (triple a b c) k) 63
     = (uint a * 65536 + uint b * 256 + uint c) div 2 ^ k mod 64"
proof -
  let ?s = "js_and (js_sar (triple a b c) k) 63"
  have "?s = uint (W ?s)"
    using sextet_range [of "js_sar (triple a b c) k"] by (simp add: uint_W_small)
  also have "\<dots> = uint (take_bit 6 (drop_bit k (W (triple a b c))))"
    by (simp only: js_sextet [OF assms])
  also have "\<dots> = take_bit 6 (drop_bit k (uint (W (triple a b c))))"
    by (simp add: unsigned_take_bit_eq unsigned_drop_bit_eq take_bit_uint32)
  finally show ?thesis
    by (simp add: uint_W_triple take_bit_eq_mod drop_bit_eq_div)
qed

lemma low_sextet_value:
  "js_and (triple a b c) 63 = (uint a * 65536 + uint b * 256 + uint c) mod 64"
proof -
  let ?s = "js_and (triple a b c) 63"
  have "?s = uint (W ?s)"
    using sextet_range [of "triple a b c"] by (simp add: uint_W_small)
  also have "\<dots> = uint (take_bit 6 (W (triple a b c)))"
    by (simp only: js_low_sextet)
  also have "\<dots> = take_bit 6 (uint (W (triple a b c)))"
    by (simp add: unsigned_take_bit_eq)
  finally show ?thesis
    by (simp add: uint_W_triple take_bit_eq_mod)
qed


lemma b64_of_int: "b64 (int n mod 64) = base64_table (n mod 64)"
proof -
  have "int n mod 64 = int (n mod 64)"
    by (simp add: zmod_int)
  then show ?thesis
    by (simp add: b64_table)
qed

lemma uint_byte_nat: "uint (a :: byte) = int (unat a)"
  by (rule uint_nat)

lemma b64_sextet:
  assumes "k \<le> 26"
  shows "b64 (js_and (js_sar (triple a b c) k) 63)
     = base64_table ((unat a * 65536 + unat b * 256 + unat c) div 2 ^ k mod 64)"
proof -
  have "(uint a * 65536 + uint b * 256 + uint c) div 2 ^ k
      = int ((unat a * 65536 + unat b * 256 + unat c) div 2 ^ k)"
    by (simp add: zdiv_int)
  then show ?thesis
    using b64_of_int [of "(unat a * 65536 + unat b * 256 + unat c) div 2 ^ k"]
    by (simp add: sextet_value [OF assms])
qed

lemma b64_low_sextet:
  "b64 (js_and (triple a b c) 63) = base64_table ((unat a * 65536 + unat b * 256 + unat c) mod 64)"
proof -
  have "uint a * 65536 + uint b * 256 + uint c = int (unat a * 65536 + unat b * 256 + unat c)"
    by simp
  then show ?thesis
    using b64_of_int [of "unat a * 65536 + unat b * 256 + unat c"]
    by (simp add: low_sextet_value)
qed

lemma unat_byte_less: "unat (a :: byte) < 256"
proof -
  have "unat a < 2 ^ LENGTH(8)"
    by (rule unsigned_less)
  then show ?thesis
    by simp
qed

lemma sextets_one:
  fixes m n :: nat
  assumes "n = m * 4096" and "m div 64 < 64"
  shows "n div 262144 mod 64 = m div 64" and "n div 4096 mod 64 = m mod 64"
proof -
  have "n div 262144 = m div 64"
    unfolding assms(1) by simp
  then show "n div 262144 mod 64 = m div 64"
    using assms(2) by simp
  show "n div 4096 mod 64 = m mod 64"
    unfolding assms(1) by simp
qed

lemma sextets_two:
  fixes m n :: nat
  assumes "n = m * 64" and "m div 4096 < 64"
  shows "n div 262144 mod 64 = m div 4096" and "n div 4096 mod 64 = m div 64 mod 64"
    and "n div 64 mod 64 = m mod 64"
proof -
  have "n div 262144 = m div 4096"
    unfolding assms(1) by simp
  then show "n div 262144 mod 64 = m div 4096"
    using assms(2) by simp
  show "n div 4096 mod 64 = m div 64 mod 64"
    unfolding assms(1) by simp
  show "n div 64 mod 64 = m mod 64"
    unfolding assms(1) by simp
qed

lemma sextet_powers: "(2 :: nat) ^ 18 = 262144" "(2 :: nat) ^ 12 = 4096" "(2 :: nat) ^ 6 = 64"
  by simp_all

lemma group_one:
  "[b64 (js_and (js_sar (triple a 0 0) 18) 63), b64 (js_and (js_sar (triple a 0 0) 12) 63)]
     = [base64_table (unat a * 16 div 64), base64_table (unat a * 16 mod 64)]"
proof -
  define n where "n = unat a * 65536 + unat (0 :: byte) * 256 + unat (0 :: byte)"
  define m where "m = unat a * 16"
  have nm: "n = m * 4096"
    unfolding n_def m_def by simp
  have lt: "m div 64 < 64"
    unfolding m_def using unat_byte_less [of a] by simp
  have s1: "b64 (js_and (js_sar (triple a 0 0) 18) 63) = base64_table (n div 2 ^ 18 mod 64)"
    unfolding n_def by (rule b64_sextet) simp
  have s2: "b64 (js_and (js_sar (triple a 0 0) 12) 63) = base64_table (n div 2 ^ 12 mod 64)"
    unfolding n_def by (rule b64_sextet) simp
  show ?thesis
    unfolding s1 s2 sextet_powers sextets_one [OF nm lt] m_def by (rule refl)
qed

lemma group_two:
  "[b64 (js_and (js_sar (triple a b 0) 18) 63), b64 (js_and (js_sar (triple a b 0) 12) 63),
    b64 (js_and (js_sar (triple a b 0) 6) 63)]
     = [base64_table ((unat a * 256 + unat b) * 4 div 4096),
        base64_table ((unat a * 256 + unat b) * 4 div 64 mod 64),
        base64_table ((unat a * 256 + unat b) * 4 mod 64)]"
proof -
  define n where "n = unat a * 65536 + unat b * 256 + unat (0 :: byte)"
  define m where "m = (unat a * 256 + unat b) * 4"
  have nm: "n = m * 64"
    unfolding n_def m_def by simp
  have lt: "m div 4096 < 64"
    unfolding m_def using unat_byte_less [of a] unat_byte_less [of b] by simp
  have s1: "b64 (js_and (js_sar (triple a b 0) 18) 63) = base64_table (n div 2 ^ 18 mod 64)"
    unfolding n_def by (rule b64_sextet) simp
  have s2: "b64 (js_and (js_sar (triple a b 0) 12) 63) = base64_table (n div 2 ^ 12 mod 64)"
    unfolding n_def by (rule b64_sextet) simp
  have s3: "b64 (js_and (js_sar (triple a b 0) 6) 63) = base64_table (n div 2 ^ 6 mod 64)"
    unfolding n_def by (rule b64_sextet) simp
  show ?thesis
    unfolding s1 s2 s3 sextet_powers sextets_two [OF nm lt] m_def by (rule refl)
qed

lemma group_three:
  "[b64 (js_and (js_sar (triple a b c) 18) 63), b64 (js_and (js_sar (triple a b c) 12) 63),
    b64 (js_and (js_sar (triple a b c) 6) 63), b64 (js_and (triple a b c) 63)]
     = [base64_table ((unat a * 65536 + unat b * 256 + unat c) div 262144),
        base64_table ((unat a * 65536 + unat b * 256 + unat c) div 4096 mod 64),
        base64_table ((unat a * 65536 + unat b * 256 + unat c) div 64 mod 64),
        base64_table ((unat a * 65536 + unat b * 256 + unat c) mod 64)]"
proof -
  define n where "n = unat a * 65536 + unat b * 256 + unat c"
  have "n div 262144 < 64"
    unfolding n_def using unat_byte_less [of a] unat_byte_less [of b] unat_byte_less [of c] by simp
  then have e1: "n div 262144 mod 64 = n div 262144"
    by simp
  have s1: "b64 (js_and (js_sar (triple a b c) 18) 63) = base64_table (n div 2 ^ 18 mod 64)"
    unfolding n_def by (rule b64_sextet) simp
  have s2: "b64 (js_and (js_sar (triple a b c) 12) 63) = base64_table (n div 2 ^ 12 mod 64)"
    unfolding n_def by (rule b64_sextet) simp
  have s3: "b64 (js_and (js_sar (triple a b c) 6) 63) = base64_table (n div 2 ^ 6 mod 64)"
    unfolding n_def by (rule b64_sextet) simp
  have s4: "b64 (js_and (triple a b c) 63) = base64_table (n mod 64)"
    unfolding n_def by (rule b64_low_sextet)
  have "[b64 (js_and (js_sar (triple a b c) 18) 63), b64 (js_and (js_sar (triple a b c) 12) 63),
    b64 (js_and (js_sar (triple a b c) 6) 63), b64 (js_and (triple a b c) 63)]
     = [base64_table (n div 262144), base64_table (n div 4096 mod 64),
        base64_table (n div 64 mod 64), base64_table (n mod 64)]"
    unfolding s1 s2 s3 s4 sextet_powers e1 by (rule refl)
  then show ?thesis
    unfolding n_def .
qed

lemma encode_groups_rfc4648: "encode_groups x = rfc4648_base64 x"
proof (induction x rule: encode_groups.induct)
  case 1
  show ?case by simp
next
  case (2 a)
  show ?case
    using group_one [of a] by (simp add: Let_def)
next
  case (3 a b)
  show ?case
    using group_two [of a b] by (simp add: Let_def)
next
  case (4 a b c rest)
  show ?case
    using group_three [of a b c] 4 by (simp add: Let_def)
qed

lemma bytesToBase64_rfc4648: "bytesToBase64 b = rfc4648_base64 b"
  by (simp add: bytesToBase64_groups encode_groups_rfc4648)

lemma length_rfc4648: "length (rfc4648_base64 b) = 4 * ((length b + 2) div 3)"
proof (induction b rule: rfc4648_base64.induct)
  case (4 a b c rest)
  have "(length (a # b # c # rest) + 2) div 3 = (length rest + 2 + 3) div 3"
    by simp
  also have "\<dots> = (length rest + 2) div 3 + 1"
    by (rule div_add_self2) simp
  finally show ?case
    using 4 by (simp add: Let_def)
qed (simp_all add: Let_def)

lemma strip_trailing_map:
  assumes "\<And>c. (f c = x) = (c = x)"
  shows "strip_trailing x (map f s) = map f (strip_trailing x s)"
proof -
  have "(\<lambda>c. c = x) \<circ> f = (\<lambda>c. c = x)"
    using assms by (auto simp: fun_eq_iff)
  then show ?thesis
    by (simp add: strip_trailing_def rev_map dropWhile_map)
qed

lemma toBase64Url_alt:
  "toBase64Url s
     = replace_all (CHR ''/'') (CHR ''_'') (replace_all (CHR ''+'') (CHR ''-'')
         (strip_trailing (CHR ''='') s))"
proof -
  let ?f = "\<lambda>c. if (if c = CHR ''+'' then CHR ''-'' else c) = CHR ''/'' then CHR ''_''
               else (if c = CHR ''+'' then CHR ''-'' else c)"
  have f: "replace_all (CHR ''/'') (CHR ''_'') (replace_all (CHR ''+'') (CHR ''-'') t) = map ?f t" for t
    by (simp add: replace_all_def)
  have "(?f c = CHR ''='') = (c = CHR ''='')" for c
    by simp
  then have "strip_trailing (CHR ''='') (map ?f s) = map ?f (strip_trailing (CHR ''='') s)"
    by (rule strip_trailing_map)
  then show ?thesis
    by (simp add: toBase64Url_def f)
qed

text \<open>The test vectors of RFC 4648, section 10: the encodings of the prefixes of \<^verbatim>\<open>foobar\<close>.\<close>

lemma base64_table_nth: "v < 64 \<Longrightarrow> base64_table v = BASE64_CHARS ! v"
proof -
  assume "v < 64"
  then have "map base64_table [0..<64] ! v = base64_table v"
    by (simp del: upt_Suc)
  then show ?thesis
    by (simp add: table_BASE64_CHARS)
qed

lemma rfc4648_test_vectors:
  "rfc4648_base64 [] = []"
  "rfc4648_base64 [0x66] = ''Zg==''"
  "rfc4648_base64 [0x66, 0x6F] = ''Zm8=''"
  "rfc4648_base64 [0x66, 0x6F, 0x6F] = ''Zm9v''"
  "rfc4648_base64 [0x66, 0x6F, 0x6F, 0x62] = ''Zm9vYg==''"
  "rfc4648_base64 [0x66, 0x6F, 0x6F, 0x62, 0x61] = ''Zm9vYmE=''"
  "rfc4648_base64 [0x66, 0x6F, 0x6F, 0x62, 0x61, 0x72] = ''Zm9vYmFy''"
  by (simp_all add: Let_def base64_table_nth BASE64_CHARS_def)

text \<open>
  C8: for every byte sequence \<open>b\<close>, every character of \<^verbatim>\<open>toBase64Url(bytesToBase64(b))\<close>
  is in the URL-safe alphabet \<^verbatim>\<open>[A-Za-z0-9-_]\<close>, and none is \<^verbatim>\<open>+\<close>, \<^verbatim>\<open>/\<close> or \<^verbatim>\<open>=\<close>.
  \<^verbatim>\<open>bytesToBase64(b)\<close> is the standard Base64 encoding of \<open>b\<close>, character for character
  (\<open>rfc4648_base64\<close>, with its padding): it has \<open>4 * \<lceil>length b / 3\<rceil>\<close> characters, all of the
  Base64 alphabet but for at most two \<^verbatim>\<open>=\<close> at the end. \<^verbatim>\<open>toBase64Url\<close> gives that encoding
  without its trailing \<^verbatim>\<open>=\<close>, with \<^verbatim>\<open>+\<close> replaced by \<^verbatim>\<open>-\<close> and \<^verbatim>\<open>/\<close> by \<^verbatim>\<open>_\<close>.
\<close>

theorem toBase64Url_alphabet:
  "list_all url_safe (toBase64Url (bytesToBase64 b))
   \<and> CHR ''+'' \<notin> set (toBase64Url (bytesToBase64 b))
   \<and> CHR ''/'' \<notin> set (toBase64Url (bytesToBase64 b))
   \<and> CHR ''='' \<notin> set (toBase64Url (bytesToBase64 b))
   \<and> set (bytesToBase64 b) \<subseteq> set BASE64_CHARS \<union> {CHR ''=''}
   \<and> (\<exists>k. k \<le> 2 \<and> bytesToBase64 b
          = takeWhile (\<lambda>c. c \<noteq> CHR ''='') (bytesToBase64 b) @ replicate k (CHR ''=''))
   \<and> toBase64Url (bytesToBase64 b)
       = replace_all (CHR ''/'') (CHR ''_'') (replace_all (CHR ''+'') (CHR ''-'')
           (takeWhile (\<lambda>c. c \<noteq> CHR ''='') (bytesToBase64 b)))
   \<and> bytesToBase64 b = rfc4648_base64 b
   \<and> length (bytesToBase64 b) = 4 * ((length b + 2) div 3)
   \<and> toBase64Url (bytesToBase64 b)
       = replace_all (CHR ''/'') (CHR ''_'') (replace_all (CHR ''+'') (CHR ''-'')
           (strip_trailing (CHR ''='') (rfc4648_base64 b)))"
proof -
  obtain core k where h: "bytesToBase64 b = core @ replicate k (CHR ''='')" "k \<le> 2"
    "set core \<subseteq> set BASE64_CHARS" "(length core + k) mod 4 = 0"
    by (rule bytesToBase64_shape)
  have nopad: "CHR ''='' \<notin> set core"
    using h(3) pad_not_in by blast
  have tw: "takeWhile (\<lambda>c. c \<noteq> CHR ''='') (bytesToBase64 b) = core"
    unfolding h(1) by (rule takeWhile_core [OF nopad])
  have url: "toBase64Url (bytesToBase64 b)
      = replace_all (CHR ''/'') (CHR ''_'') (replace_all (CHR ''+'') (CHR ''-'') core)"
    unfolding h(1) by (rule toBase64Url_core [OF h(3)])
  have "replace_all (CHR ''/'') (CHR ''_'') (replace_all (CHR ''+'') (CHR ''-'') core)
      = map (\<lambda>c. if (if c = CHR ''+'' then CHR ''-'' else c) = CHR ''/'' then CHR ''_''
               else (if c = CHR ''+'' then CHR ''-'' else c)) core"
    by (simp add: replace_all_def)
  moreover have "url_safe (if (if c = CHR ''+'' then CHR ''-'' else c) = CHR ''/'' then CHR ''_''
               else (if c = CHR ''+'' then CHR ''-'' else c))" if "c \<in> set core" for c
    using that h(3) by (intro url_safe_alphabet) blast
  ultimately have safe: "list_all url_safe (toBase64Url (bytesToBase64 b))"
    unfolding url by (simp only: list_all_map_I)
  then have no: "CHR ''+'' \<notin> set (toBase64Url (bytesToBase64 b))"
    "CHR ''/'' \<notin> set (toBase64Url (bytesToBase64 b))"
    "CHR ''='' \<notin> set (toBase64Url (bytesToBase64 b))"
    using url_safe_chars by (auto simp: list_all_iff)
  have sub: "set (bytesToBase64 b) \<subseteq> set BASE64_CHARS \<union> {CHR ''=''}"
    unfolding h(1) using h(3) by auto
  have ex: "\<exists>k. k \<le> 2 \<and> bytesToBase64 b
          = takeWhile (\<lambda>c. c \<noteq> CHR ''='') (bytesToBase64 b) @ replicate k (CHR ''='')"
    unfolding tw using h(1) h(2) by blast
  have shape: "list_all url_safe (toBase64Url (bytesToBase64 b))
   \<and> CHR ''+'' \<notin> set (toBase64Url (bytesToBase64 b))
   \<and> CHR ''/'' \<notin> set (toBase64Url (bytesToBase64 b))
   \<and> CHR ''='' \<notin> set (toBase64Url (bytesToBase64 b))
   \<and> set (bytesToBase64 b) \<subseteq> set BASE64_CHARS \<union> {CHR ''=''}
   \<and> (\<exists>k. k \<le> 2 \<and> bytesToBase64 b
          = takeWhile (\<lambda>c. c \<noteq> CHR ''='') (bytesToBase64 b) @ replicate k (CHR ''=''))
   \<and> toBase64Url (bytesToBase64 b)
       = replace_all (CHR ''/'') (CHR ''_'') (replace_all (CHR ''+'') (CHR ''-'')
           (takeWhile (\<lambda>c. c \<noteq> CHR ''='') (bytesToBase64 b)))"
    using safe no sub ex url tw by simp
  have std: "bytesToBase64 b = rfc4648_base64 b"
    by (rule bytesToBase64_rfc4648)
  have len: "length (bytesToBase64 b) = 4 * ((length b + 2) div 3)"
    unfolding std by (rule length_rfc4648)
  have enc: "toBase64Url (bytesToBase64 b)
       = replace_all (CHR ''/'') (CHR ''_'') (replace_all (CHR ''+'') (CHR ''-'')
           (strip_trailing (CHR ''='') (rfc4648_base64 b)))"
    unfolding std by (rule toBase64Url_alt)
  show ?thesis
    using shape std len enc by blast
qed

lemma utf8_run_ascii:
  "\<forall>b \<in> set x. b < 128 \<Longrightarrow> utf8_run 0 0 0 128 191 x = map uint x"
proof (induction x)
  case Nil
  then show ?case by (simp add: utf8_run.simps)
next
  case (Cons b x)
  then have "b < 128" by simp
  then have "uint b \<le> 127"
    by (simp add: word_less_def)
  then show ?case
    using Cons by (simp add: utf8_run.simps Let_def)
qed

lemma TextDecoder_utf8_ascii:
  assumes "\<forall>b \<in> set x. b < 128"
  shows "TextDecoder_utf8 x = map uint x"
proof -
  have small: "uint b < 128" if "b \<in> set x" for b
    using assms that by (auto simp: word_less_def)
  have "strip_bom (map uint x) = map uint x"
  proof (cases x)
    case Nil
    then show ?thesis by (simp add: strip_bom_def)
  next
    case (Cons a list)
    then have "uint a < 128"
      using small [of a] by simp
    then show ?thesis
      using Cons by (simp add: strip_bom_def)
  qed
  moreover have "utf16_units (uint b) = [uint b]" if "b \<in> set x" for b
    using small [OF that] by (simp add: utf16_units_def)
  then have "concat (map utf16_units (map uint x)) = map uint x"
    by (induction x) simp_all
  ultimately show ?thesis
    by (simp add: TextDecoder_utf8_def utf8_run_ascii [OF assms])
qed

text \<open>
  C2, as stated, at the one-byte sequence \<^verbatim>\<open>[0xFF]\<close> on a platform with a \<^verbatim>\<open>TextDecoder\<close>:
  the string that \<^verbatim>\<open>base64UrlToString\<close> returns for its encoding is the single character
  U+FFFD, not the character with the code 255: the bytes are decoded as UTF-8 text.
\<close>

theorem base64UrlToString_not_bytes_counterexample:
  "base64UrlToString (Some TextDecoder_utf8) (toBase64Url (bytesToBase64 [255])) = [65533]
   \<and> map uint [255 :: byte] = [255]"
  by code_simp

text \<open>
  C2, amended: for every byte sequence \<open>x\<close>, the array \<^verbatim>\<open>bytes\<close> that
  \<^verbatim>\<open>base64UrlToString\<close> rebuilds from \<^verbatim>\<open>toBase64Url(bytesToBase64(x))\<close> is exactly \<open>x\<close>. The
  string it returns has the bytes of \<open>x\<close> as its character codes on a platform without
  \<^verbatim>\<open>TextDecoder\<close>; with a \<^verbatim>\<open>TextDecoder\<close> it is the decoder's result on \<open>x\<close>, which for the
  UTF-8 decoder has the bytes of \<open>x\<close> as character codes when every byte is below 128.
\<close>

theorem base64Url_roundtrip:
  "base64UrlToString_bytes (toBase64Url (bytesToBase64 x)) = map uint x
   \<and> base64UrlToString None (toBase64Url (bytesToBase64 x)) = map uint x
   \<and> base64UrlToString (Some decode) (toBase64Url (bytesToBase64 x)) = decode x
   \<and> ((\<forall>b \<in> set x. b < 128) \<longrightarrow>
        base64UrlToString (Some TextDecoder_utf8) (toBase64Url (bytesToBase64 x)) = map uint x)"
proof -
  have bytes: "base64UrlToString_bytes (toBase64Url (bytesToBase64 x)) = map uint x"
    by (rule base64UrlToString_bytes_roundtrip)
  have out: "for_loop 0 (length ys) 1 (\<lambda>i output. output @ [ys ! i]) [] = ys" for ys :: "int list"
    by (simp add: for_loop_fold_Suc fold_append_char map_nth)
  have wi: "map (word_of_int \<circ> uint) x = x"
    by (simp add: map_idI)
  have some: "base64UrlToString (Some d) (toBase64Url (bytesToBase64 x)) = d x" for d
    by (simp add: base64UrlToString_def bytes wi Let_def)
  have none: "base64UrlToString None (toBase64Url (bytesToBase64 x)) = map uint x"
    using out [of "map uint x"] by (simp add: base64UrlToString_def bytes Let_def)
  show ?thesis
    using bytes none some TextDecoder_utf8_ascii by simp
qed

theorem base64Url_roundtrip_witness:
  "list_all (\<lambda>b. b < 128) [77, 97, 110, 33 :: byte]
   \<and> base64UrlToString (Some TextDecoder_utf8) (toBase64Url (bytesToBase64 [77, 97, 110, 33]))
       = map uint [77, 97, 110, 33 :: byte]
   \<and> base64UrlToString None (toBase64Url (bytesToBase64 [255])) = map uint [255 :: byte]"
proof -
  have a: "\<forall>b \<in> set [77, 97, 110, 33 :: byte]. b < 128"
    by simp
  have "base64UrlToString (Some TextDecoder_utf8) (toBase64Url (bytesToBase64 [77, 97, 110, 33]))
       = map uint [77, 97, 110, 33 :: byte]"
    using base64Url_roundtrip [of "[77, 97, 110, 33]" TextDecoder_utf8] a by blast
  moreover have "base64UrlToString None (toBase64Url (bytesToBase64 [255])) = map uint [255 :: byte]"
    using base64Url_roundtrip [of "[255]" TextDecoder_utf8] by blast
  ultimately show ?thesis
    by simp
qed


section \<open>The ID token: \<^verbatim>\<open>parseJwtPayload\<close>\<close>

text \<open>\<^verbatim>\<open>s.split('.')\<close>: the pieces between the separators; never an empty array.\<close>

fun split :: "string \<Rightarrow> char \<Rightarrow> string list" where
  "split [] c = [[]]"
| "split (x # xs) c =
     (if x = c then [] # split xs c
      else (case split xs c of p # ps \<Rightarrow> (x # p) # ps | [] \<Rightarrow> [[x]]))"

record JwtPayload =
  sub :: "string option"
  jwt_name :: "string option"
  jwt_email :: "string option"

text \<open>
  \<^verbatim>\<open>try { ... } catch { ... }\<close> on results: the handler takes over when the body throws.
\<close>

definition try_catch :: "error + 'a \<Rightarrow> (error \<Rightarrow> error + 'a) \<Rightarrow> error + 'a" where
  "try_catch body handler = (case body of Inl e \<Rightarrow> handler e | Inr v \<Rightarrow> Inr v)"

text \<open>
  \<^verbatim>\<open>JSON.parse\<close> is the platform's and a parameter: it throws (\<open>Inl\<close>) or returns the value,
  read at the type \<^verbatim>\<open>JwtPayload | null\<close> that the source casts it to (\<open>None\<close> is
  \<^verbatim>\<open>null\<close>). \<^verbatim>\<open>!token\<close> holds for an absent token and for the empty string.
\<close>

definition parseJwtPayload ::
  "(byte list \<Rightarrow> int list) option \<Rightarrow> (int list \<Rightarrow> error + JwtPayload option)
     \<Rightarrow> string option \<Rightarrow> error + JwtPayload option" where
  "parseJwtPayload TextDecoder_decode JSON_parse token =
     (case token of
        None \<Rightarrow> Inr None
      | Some token \<Rightarrow>
          if token = [] then Inr None
          else
            let parts = split token (CHR ''.'')
            in if length parts < 2 then Inr None
               else try_catch
                      (let payload = base64UrlToString TextDecoder_decode (parts ! 1)
                       in JSON_parse payload)
                      (\<lambda>e. Inr None))"



text \<open>A \<^verbatim>\<open>JSON.parse\<close> that knows the text \<^verbatim>\<open>{"sub":"U1"}\<close> and throws on any other.\<close>

definition parse_sub_U1 :: "int list \<Rightarrow> error + JwtPayload option" where
  "parse_sub_U1 payload =
     (if payload = [123, 34, 115, 117, 98, 34, 58, 34, 85, 49, 34, 125]
      then Inr (Some \<lparr>sub = Some ''U1'', jwt_name = None, jwt_email = None\<rparr>)
      else Inl SyntaxError)"



section \<open>Token exchange and profile\<close>

record SocialAuthProfile =
  externalId :: string
  name :: string
  email :: "string option"
  avatarUrl :: "string option"

record LineTokenResponse =
  access_token :: string
  id_token :: "string option"
  token_type :: string
  expires_in :: int

record LineProfileResponse =
  userId :: "string option"
  displayName :: "string option"
  pictureUrl :: "string option"

text \<open>
  The fields of \<^verbatim>\<open>XTokenResponse\<close> and of the \<^verbatim>\<open>data\<close> of \<^verbatim>\<open>XMeResponse\<close> carry a prefix
  where the source's name is taken. \<^verbatim>\<open>data.id\<close> is declared a string, and the source
  still tests it: it is optional here, so that a response without it can be written.
\<close>

record XTokenResponse =
  x_token_type :: string
  x_expires_in :: "int option"
  x_access_token :: string
  x_refresh_token :: "string option"
  x_scope :: "string option"

record XUser =
  user_id :: "string option"
  user_name :: "string option"
  username :: "string option"
  profile_image_url :: "string option"

record XMeResponse =
  data :: "XUser option"

text \<open>
  A request is the URL, the headers and, for the \<^verbatim>\<open>POST\<close>, the entries of the
  \<^verbatim>\<open>URLSearchParams\<close> whose text is the body. A response has \<^verbatim>\<open>ok\<close>, \<^verbatim>\<open>status\<close>, the
  body as \<^verbatim>\<open>text()\<close> gives it and as \<^verbatim>\<open>json()\<close> gives it, read at the type the source casts
  it to. \<^verbatim>\<open>fetch\<close> is the platform's: a parameter for each endpoint, which answers or
  rejects.
\<close>

datatype request =
    Post string "(string \<times> string) list" "(string \<times> string) list"
  | Get string "(string \<times> string) list"

record 'j response =
  ok :: bool
  status :: nat
  response_text :: string
  response_json :: "error + 'j"

definition LINE_TOKEN_URL :: string where
  "LINE_TOKEN_URL = ''https://api.line.me/oauth2/v2.1/token''"

definition LINE_PROFILE_URL :: string where
  "LINE_PROFILE_URL = ''https://api.line.me/v2/profile''"

definition X_TOKEN_URL :: string where
  "X_TOKEN_URL = ''https://api.twitter.com/2/oauth2/token''"

definition X_ME_URL :: string where
  "X_ME_URL = ''https://api.twitter.com/2/users/me?user.fields=name,username,profile_image_url''"

text \<open>\<^verbatim>\<open>a ?? b\<close>\<close>

definition nullish :: "'a option \<Rightarrow> 'a option \<Rightarrow> 'a option" where
  "nullish a b = (case a of Some x \<Rightarrow> Some x | None \<Rightarrow> b)"

text \<open>\<^verbatim>\<open>a ?? d\<close> with a \<open>d\<close> that is always there\<close>

definition nullish_or :: "'a option \<Rightarrow> 'a \<Rightarrow> 'a" where
  "nullish_or a d = (case a of Some x \<Rightarrow> x | None \<Rightarrow> d)"

text \<open>\<^verbatim>\<open>payload?.field\<close>\<close>

definition optional_chain :: "'a option \<Rightarrow> ('a \<Rightarrow> 'b option) \<Rightarrow> 'b option" where
  "optional_chain payload field = (case payload of None \<Rightarrow> None | Some p \<Rightarrow> field p)"

text \<open>
  The entries of \<^verbatim>\<open>tokenParams\<close>, the same for both providers: the client secret is
  appended when it is set and not empty. \<open>authorization_code\<close> is the \<^verbatim>\<open>code\<close> that
  \<^verbatim>\<open>runOAuthCodeFlow\<close> returned.
\<close>

definition tokenParams :: "string \<Rightarrow> string \<Rightarrow> string \<Rightarrow> string \<Rightarrow> string option \<Rightarrow> (string \<times> string) list" where
  "tokenParams authorization_code redirectUri clientId codeVerifier clientSecret =
     [(''grant_type'', ''authorization_code''), (''code'', authorization_code), (''redirect_uri'', redirectUri),
      (''client_id'', clientId), (''code_verifier'', codeVerifier)]
     @ (case clientSecret of
          Some secret \<Rightarrow> if secret \<noteq> [] then [(''client_secret'', secret)] else []
        | None \<Rightarrow> [])"

text \<open>
  The end of \<^verbatim>\<open>authenticateWithLine\<close>, from the parsed token and profile responses:
  \<^verbatim>\<open>!externalId\<close> holds for an absent identifier and for the empty string.
\<close>

definition authenticateWithLine_profile ::
  "(byte list \<Rightarrow> int list) option \<Rightarrow> (int list \<Rightarrow> error + JwtPayload option)
     \<Rightarrow> LineTokenResponse \<Rightarrow> LineProfileResponse \<Rightarrow> error + SocialAuthProfile" where
  "authenticateWithLine_profile TextDecoder_decode JSON_parse token profile =
     (case parseJwtPayload TextDecoder_decode JSON_parse (id_token token) of
        Inl e \<Rightarrow> Inl e
      | Inr idPayload \<Rightarrow>
          (case nullish (userId profile) (optional_chain idPayload sub) of
             None \<Rightarrow> Inl LineMissingUserId
           | Some external_id \<Rightarrow>
               if external_id = [] then Inl LineMissingUserId
               else Inr \<lparr>externalId = external_id,
                         name = nullish_or
                                  (nullish (displayName profile) (optional_chain idPayload jwt_name))
                                  ''LINE User'',
                         email = nullish (optional_chain idPayload jwt_email) None,
                         avatarUrl = nullish (pictureUrl profile) None\<rparr>))"

text \<open>
  \<^verbatim>\<open>authenticateWithLine\<close> from the token exchange on, with the requests it makes, in
  order: the \<^verbatim>\<open>POST\<close> to the token endpoint and the \<^verbatim>\<open>GET\<close> of the profile with the access
  token as bearer.
\<close>

definition line_token_request ::
  "string \<Rightarrow> string \<Rightarrow> string \<Rightarrow> string \<Rightarrow> string option \<Rightarrow> request" where
  "line_token_request authorization_code redirectUri clientId codeVerifier channelSecret =
     Post LINE_TOKEN_URL [(''Content-Type'', ''application/x-www-form-urlencoded'')]
       (tokenParams authorization_code redirectUri clientId codeVerifier channelSecret)"

definition line_profile_request :: "LineTokenResponse \<Rightarrow> request" where
  "line_profile_request token =
     Get LINE_PROFILE_URL [(''Authorization'', ''Bearer '' @ access_token token)]"

definition authenticateWithLine_exchange ::
  "(request \<Rightarrow> error + LineTokenResponse response) \<Rightarrow> (request \<Rightarrow> error + LineProfileResponse response)
     \<Rightarrow> (byte list \<Rightarrow> int list) option \<Rightarrow> (int list \<Rightarrow> error + JwtPayload option)
     \<Rightarrow> string \<Rightarrow> string \<Rightarrow> string \<Rightarrow> string \<Rightarrow> string option
     \<Rightarrow> request list \<times> (error + SocialAuthProfile)" where
  "authenticateWithLine_exchange fetch_token fetch_profile TextDecoder_decode JSON_parse
       authorization_code redirectUri clientId codeVerifier channelSecret =
     (let tokenRequest =
            line_token_request authorization_code redirectUri clientId codeVerifier channelSecret
      in case fetch_token tokenRequest of
           Inl e \<Rightarrow> ([tokenRequest], Inl e)
         | Inr tokenResponse \<Rightarrow>
             if \<not> ok tokenResponse
             then ([tokenRequest],
                   Inl (LineTokenExchangeFailed (status tokenResponse) (response_text tokenResponse)))
             else
               (case response_json tokenResponse of
                  Inl e \<Rightarrow> ([tokenRequest], Inl e)
                | Inr token \<Rightarrow>
                    let profileRequest = line_profile_request token
                    in case fetch_profile profileRequest of
                         Inl e \<Rightarrow> ([tokenRequest, profileRequest], Inl e)
                       | Inr profileResponse \<Rightarrow>
                           if \<not> ok profileResponse
                           then ([tokenRequest, profileRequest],
                                 Inl (LineProfileFetchFailed (status profileResponse)
                                        (response_text profileResponse)))
                           else
                             (case response_json profileResponse of
                                Inl e \<Rightarrow> ([tokenRequest, profileRequest], Inl e)
                              | Inr profile \<Rightarrow>
                                  ([tokenRequest, profileRequest],
                                   authenticateWithLine_profile TextDecoder_decode JSON_parse
                                     token profile))))"

text \<open>
  The end of \<^verbatim>\<open>authenticateWithX\<close>, from the parsed \<^verbatim>\<open>/users/me\<close> response: \<^verbatim>\<open>!user?.id\<close>
  holds without \<^verbatim>\<open>data\<close>, without \<^verbatim>\<open>data.id\<close> and for the empty string.
\<close>

definition authenticateWithX_profile :: "XMeResponse \<Rightarrow> error + SocialAuthProfile" where
  "authenticateWithX_profile me =
     (case data me of
        None \<Rightarrow> Inl XMissingUserId
      | Some user \<Rightarrow>
          (case user_id user of
             None \<Rightarrow> Inl XMissingUserId
           | Some i \<Rightarrow>
               if i = [] then Inl XMissingUserId
               else Inr \<lparr>externalId = i,
                         name = nullish_or (nullish (user_name user) (username user)) ''X User'',
                         email = None,
                         avatarUrl = nullish (profile_image_url user) None\<rparr>))"

text \<open>
  \<^verbatim>\<open>authenticateWithX\<close> from the token exchange on, with the requests it makes, in order.
\<close>

definition x_token_request ::
  "string \<Rightarrow> string \<Rightarrow> string \<Rightarrow> string \<Rightarrow> string option \<Rightarrow> request" where
  "x_token_request authorization_code redirectUri clientId codeVerifier clientSecret =
     Post X_TOKEN_URL [(''Content-Type'', ''application/x-www-form-urlencoded'')]
       (tokenParams authorization_code redirectUri clientId codeVerifier clientSecret)"

definition x_me_request :: "XTokenResponse \<Rightarrow> request" where
  "x_me_request token = Get X_ME_URL [(''Authorization'', ''Bearer '' @ x_access_token token)]"

definition authenticateWithX_exchange ::
  "(request \<Rightarrow> error + XTokenResponse response) \<Rightarrow> (request \<Rightarrow> error + XMeResponse response)
     \<Rightarrow> string \<Rightarrow> string \<Rightarrow> string \<Rightarrow> string \<Rightarrow> string option
     \<Rightarrow> request list \<times> (error + SocialAuthProfile)" where
  "authenticateWithX_exchange fetch_token fetch_me
       authorization_code redirectUri clientId codeVerifier clientSecret =
     (let tokenRequest =
            x_token_request authorization_code redirectUri clientId codeVerifier clientSecret
      in case fetch_token tokenRequest of
           Inl e \<Rightarrow> ([tokenRequest], Inl e)
         | Inr tokenResponse \<Rightarrow>
             if \<not> ok tokenResponse
             then ([tokenRequest],
                   Inl (XTokenExchangeFailed (status tokenResponse) (response_text tokenResponse)))
             else
               (case response_json tokenResponse of
                  Inl e \<Rightarrow> ([tokenRequest], Inl e)
                | Inr token \<Rightarrow>
                    let meRequest = x_me_request token
                    in case fetch_me meRequest of
                         Inl e \<Rightarrow> ([tokenRequest, meRequest], Inl e)
                       | Inr meResponse \<Rightarrow>
                           if \<not> ok meResponse
                           then ([tokenRequest, meRequest],
                                 Inl (XProfileFetchFailed (status meResponse)
                                        (response_text meResponse)))
                           else
                             (case response_json meResponse of
                                Inl e \<Rightarrow> ([tokenRequest, meRequest], Inl e)
                              | Inr me \<Rightarrow>
                                  ([tokenRequest, meRequest], authenticateWithX_profile me))))"


text \<open>
  C5, as stated, at the profile response \<^verbatim>\<open>{userId: ''}\<close> with no ID token: the
  \<^verbatim>\<open>userId\<close> is present, and the flow does not return a profile with that identifier: it
  fails with the missing user id, because \<^verbatim>\<open>!externalId\<close> holds for the empty string.
\<close>

theorem authenticateWithLine_empty_userId_counterexample:
  "userId \<lparr>userId = Some [], displayName = None, pictureUrl = None\<rparr> = Some []
   \<and> authenticateWithLine_profile None parse_sub_U1
        \<lparr>access_token = ''t'', id_token = None, token_type = ''Bearer'', expires_in = 3600\<rparr>
        \<lparr>userId = Some [], displayName = None, pictureUrl = None\<rparr>
       = Inl LineMissingUserId"
  by (simp add: authenticateWithLine_profile_def parseJwtPayload_def nullish_def)

text \<open>
  C5, amended: let \<open>idPayload\<close> be the payload that \<^verbatim>\<open>parseJwtPayload\<close> gives for the
  optional ID token. The identifier chosen is \<^verbatim>\<open>profile.userId\<close> when present, otherwise
  the \<^verbatim>\<open>sub\<close> claim of \<open>idPayload\<close>. The flow fails with the missing user id when the chosen
  identifier is absent (both are absent) or is the empty string; otherwise it returns the
  profile whose \<^verbatim>\<open>externalId\<close> is the chosen identifier, whose name is
  \<^verbatim>\<open>profile.displayName\<close> when present, else the \<^verbatim>\<open>name\<close> claim, else \<^verbatim>\<open>LINE User\<close>, whose
  email is the \<^verbatim>\<open>email\<close> claim or \<^verbatim>\<open>null\<close> (the profile response has no part in it), and
  whose avatar is \<^verbatim>\<open>profile.pictureUrl\<close> or \<^verbatim>\<open>null\<close>.
\<close>

theorem authenticateWithLine_normalization:
  "parseJwtPayload TextDecoder_decode JSON_parse (id_token token) = Inr idPayload \<Longrightarrow>
     ((userId profile = None \<and> (idPayload = None \<or> (\<exists>p. idPayload = Some p \<and> sub p = None))) \<or>
      userId profile = Some [] \<or>
      (userId profile = None \<and> (\<exists>p. idPayload = Some p \<and> sub p = Some [])) \<longrightarrow>
        authenticateWithLine_profile TextDecoder_decode JSON_parse token profile
          = Inl LineMissingUserId)
   \<and> (\<forall>i. i \<noteq> [] \<and> (userId profile = Some i \<or>
              (userId profile = None \<and> (\<exists>p. idPayload = Some p \<and> sub p = Some i))) \<longrightarrow>
          authenticateWithLine_profile TextDecoder_decode JSON_parse token profile
            = Inr \<lparr>externalId = i,
                   name = (case displayName profile of
                             Some d \<Rightarrow> d
                           | None \<Rightarrow>
                               (case idPayload of
                                  None \<Rightarrow> ''LINE User''
                                | Some p \<Rightarrow>
                                    (case jwt_name p of Some n \<Rightarrow> n | None \<Rightarrow> ''LINE User''))),
                   email = (case idPayload of None \<Rightarrow> None | Some p \<Rightarrow> jwt_email p),
                   avatarUrl = pictureUrl profile\<rparr>)"
  by (auto simp: authenticateWithLine_profile_def nullish_def nullish_or_def optional_chain_def
      split: option.splits)


text \<open>A \<^verbatim>\<open>JSON.parse\<close> that returns one payload, and a \<^verbatim>\<open>fetch\<close> that answers 200 with one body.\<close>

definition parse_as :: "JwtPayload \<Rightarrow> int list \<Rightarrow> error + JwtPayload option" where
  "parse_as p payload = Inr (Some p)"

definition answer :: "'j \<Rightarrow> request \<Rightarrow> error + 'j response" where
  "answer j r = Inr \<lparr>ok = True, status = 200, response_text = [], response_json = Inr j\<rparr>"

theorem authenticateWithLine_normalization_witness:
  "authenticateWithLine_profile None
     (parse_as \<lparr>sub = Some ''U1'', jwt_name = Some ''Hanako'', jwt_email = Some ''a@b.com''\<rparr>)
     \<lparr>access_token = ''t'', id_token = Some ''h.e30.s'', token_type = ''Bearer'', expires_in = 3600\<rparr>
     \<lparr>userId = None, displayName = None, pictureUrl = Some ''https://p/1.png''\<rparr>
     = Inr \<lparr>externalId = ''U1'', name = ''Hanako'', email = Some ''a@b.com'',
            avatarUrl = Some ''https://p/1.png''\<rparr>
   \<and> authenticateWithLine_profile None
       (parse_as \<lparr>sub = Some ''U1'', jwt_name = Some ''Hanako'', jwt_email = Some ''a@b.com''\<rparr>)
       \<lparr>access_token = ''t'', id_token = None, token_type = ''Bearer'', expires_in = 3600\<rparr>
       \<lparr>userId = None, displayName = Some ''Taro'', pictureUrl = None\<rparr>
     = Inl LineMissingUserId"
proof -
  let ?p = "\<lparr>sub = Some ''U1'', jwt_name = Some ''Hanako'', jwt_email = Some ''a@b.com''\<rparr>"
  let ?t1 = "\<lparr>access_token = ''t'', id_token = Some ''h.e30.s'', token_type = ''Bearer'',
               expires_in = 3600\<rparr>"
  let ?t2 = "\<lparr>access_token = ''t'', id_token = None, token_type = ''Bearer'', expires_in = 3600\<rparr>"
  have j1: "parseJwtPayload None (parse_as ?p) (id_token ?t1) = Inr (Some ?p)"
    by (simp add: parseJwtPayload_def parse_as_def try_catch_def Let_def)
  have j2: "parseJwtPayload None (parse_as ?p) (id_token ?t2) = Inr None"
    by (simp add: parseJwtPayload_def)
  show ?thesis
    using authenticateWithLine_normalization [OF j1,
        of "\<lparr>userId = None, displayName = None, pictureUrl = Some ''https://p/1.png''\<rparr>"]
      authenticateWithLine_normalization [OF j2,
        of "\<lparr>userId = None, displayName = Some ''Taro'', pictureUrl = None\<rparr>"]
    by simp
qed

lemma authenticateWithLine_exchange_ok:
  "fetch_token (line_token_request authorization_code redirectUri clientId codeVerifier channelSecret)
       = Inr tokenResponse \<Longrightarrow>
   ok tokenResponse \<Longrightarrow> response_json tokenResponse = Inr token \<Longrightarrow>
   fetch_profile (line_profile_request token) = Inr profileResponse \<Longrightarrow>
   ok profileResponse \<Longrightarrow> response_json profileResponse = Inr profile \<Longrightarrow>
     authenticateWithLine_exchange fetch_token fetch_profile TextDecoder_decode JSON_parse
         authorization_code redirectUri clientId codeVerifier channelSecret
       = ([line_token_request authorization_code redirectUri clientId codeVerifier channelSecret,
           line_profile_request token],
          authenticateWithLine_profile TextDecoder_decode JSON_parse token profile)"
  by (simp add: authenticateWithLine_exchange_def Let_def)

text \<open>
  C6, as stated, at the \<^verbatim>\<open>/users/me\<close> response \<^verbatim>\<open>{data: {id: ''}}\<close>: \<^verbatim>\<open>data\<close> and \<^verbatim>\<open>data.id\<close>
  are present, and the flow does not return a profile whose identifier is \<^verbatim>\<open>data.id\<close>: it
  fails with the missing user id, because \<^verbatim>\<open>!user?.id\<close> holds for the empty string.
\<close>

theorem authenticateWithX_empty_id_counterexample:
  "data \<lparr>data = Some \<lparr>user_id = Some [], user_name = Some ''n'', username = None,
                        profile_image_url = None\<rparr>\<rparr> \<noteq> None
   \<and> authenticateWithX_profile
        \<lparr>data = Some \<lparr>user_id = Some [], user_name = Some ''n'', username = None,
                       profile_image_url = None\<rparr>\<rparr>
       = Inl XMissingUserId"
  by (simp add: authenticateWithX_profile_def)

text \<open>
  C6, amended: when the token exchange and the fetch of \<^verbatim>\<open>/users/me\<close> both answer with
  success, the flow has made exactly these two requests, in this order, and none after
  them. If \<^verbatim>\<open>data\<close> is absent, or \<^verbatim>\<open>data.id\<close> is absent or the empty string, it fails with
  the missing user id; otherwise it returns the profile whose \<^verbatim>\<open>externalId\<close> is \<^verbatim>\<open>data.id\<close>
  unchanged, whose name is \<^verbatim>\<open>data.name\<close> when present, else \<^verbatim>\<open>data.username\<close>, else
  \<^verbatim>\<open>X User\<close>, whose email is \<^verbatim>\<open>null\<close> and whose avatar is \<^verbatim>\<open>data.profile_image_url\<close> or
  \<^verbatim>\<open>null\<close>.
\<close>

theorem authenticateWithX_normalization:
  "fetch_token (x_token_request authorization_code redirectUri clientId codeVerifier clientSecret)
       = Inr tokenResponse \<Longrightarrow>
   ok tokenResponse \<Longrightarrow> response_json tokenResponse = Inr token \<Longrightarrow>
   fetch_me (x_me_request token) = Inr meResponse \<Longrightarrow>
   ok meResponse \<Longrightarrow> response_json meResponse = Inr me \<Longrightarrow>
     fst (authenticateWithX_exchange fetch_token fetch_me
            authorization_code redirectUri clientId codeVerifier clientSecret)
       = [x_token_request authorization_code redirectUri clientId codeVerifier clientSecret,
          x_me_request token]
   \<and> snd (authenticateWithX_exchange fetch_token fetch_me
            authorization_code redirectUri clientId codeVerifier clientSecret)
       = authenticateWithX_profile me
   \<and> ((data me = None \<or> (\<exists>u. data me = Some u \<and> (user_id u = None \<or> user_id u = Some []))) \<longrightarrow>
        authenticateWithX_profile me = Inl XMissingUserId)
   \<and> (\<forall>u i. data me = Some u \<and> user_id u = Some i \<and> i \<noteq> [] \<longrightarrow>
        authenticateWithX_profile me
          = Inr \<lparr>externalId = i,
                 name = (case user_name u of
                           Some n \<Rightarrow> n
                         | None \<Rightarrow> (case username u of Some n \<Rightarrow> n | None \<Rightarrow> ''X User'')),
                 email = None,
                 avatarUrl = profile_image_url u\<rparr>)"
  by (auto simp: authenticateWithX_exchange_def authenticateWithX_profile_def Let_def
      nullish_def nullish_or_def split: option.splits)

theorem authenticateWithX_normalization_witness:
  "snd (authenticateWithX_exchange
          (answer \<lparr>x_token_type = ''bearer'', x_expires_in = None, x_access_token = ''t'',
                   x_refresh_token = None, x_scope = None\<rparr>)
          (answer \<lparr>data = Some \<lparr>user_id = Some ''12'', user_name = None, username = Some ''mugi'',
                                 profile_image_url = None\<rparr>\<rparr>)
          ''c'' ''https://a/auth/callback'' ''id'' ''v'' None)
     = Inr \<lparr>externalId = ''12'', name = ''mugi'', email = None, avatarUrl = None\<rparr>
   \<and> authenticateWithX_exchange
          (answer \<lparr>x_token_type = ''bearer'', x_expires_in = None, x_access_token = ''t'',
                   x_refresh_token = None, x_scope = None\<rparr>)
          (answer \<lparr>data = None\<rparr>)
          ''c'' ''https://a/auth/callback'' ''id'' ''v'' None
     = ([x_token_request ''c'' ''https://a/auth/callback'' ''id'' ''v'' None,
         x_me_request \<lparr>x_token_type = ''bearer'', x_expires_in = None, x_access_token = ''t'',
                       x_refresh_token = None, x_scope = None\<rparr>],
        Inl XMissingUserId)"
proof -
  let ?tok = "\<lparr>x_token_type = ''bearer'', x_expires_in = None, x_access_token = ''t'',
                   x_refresh_token = None, x_scope = None\<rparr>"
  let ?u = "\<lparr>user_id = Some ''12'', user_name = None, username = Some ''mugi'',
             profile_image_url = None\<rparr>"
  let ?me1 = "\<lparr>data = Some ?u\<rparr>"
  let ?me2 = "\<lparr>data = None :: XUser option\<rparr>"
  let ?ex1 = "authenticateWithX_exchange (answer ?tok) (answer ?me1)
                ''c'' ''https://a/auth/callback'' ''id'' ''v'' None"
  let ?ex2 = "authenticateWithX_exchange (answer ?tok) (answer ?me2)
                ''c'' ''https://a/auth/callback'' ''id'' ''v'' None"
  have a: "answer j r = Inr \<lparr>ok = True, status = 200, response_text = [], response_json = Inr j\<rparr>"
    for j :: "'j" and r
    by (simp add: answer_def)
  have 1: "snd ?ex1 = authenticateWithX_profile ?me1
      \<and> authenticateWithX_profile ?me1
          = Inr \<lparr>externalId = ''12'', name = ''mugi'', email = None, avatarUrl = None\<rparr>"
    using authenticateWithX_normalization [of "answer ?tok" "''c''" "''https://a/auth/callback''"
        "''id''" "''v''" None _ ?tok "answer ?me1" _ ?me1, OF a _ _ a]
    by simp
  have 2: "fst ?ex2 = [x_token_request ''c'' ''https://a/auth/callback'' ''id'' ''v'' None,
         x_me_request ?tok] \<and> snd ?ex2 = authenticateWithX_profile ?me2
      \<and> authenticateWithX_profile ?me2 = Inl XMissingUserId"
    using authenticateWithX_normalization [of "answer ?tok" "''c''" "''https://a/auth/callback''"
        "''id''" "''v''" None _ ?tok "answer ?me2" _ ?me2, OF a _ _ a]
    by simp
  show ?thesis
    using 1 2 by (simp add: prod_eq_iff)
qed


end
